theory Spec2Isabelle
  imports Complex_Main
begin

section \<open>Stop-and-wait transfer over an unreliable datagram channel\<close>

text \<open>
  The repository holds two programs, \<^verbatim>\<open>client.py\<close> (the sender) and
  \<^verbatim>\<open>server.py\<close> (the receiver). Both define the same two checksum functions
  and a \<^verbatim>\<open>main\<close> that drives the protocol through three helper modules that are
  imported but are not part of the two files: \<^verbatim>\<open>udt\<close> (datagram send and
  receive), \<^verbatim>\<open>packet\<close> (the codec) and \<^verbatim>\<open>timer\<close>.

  Python \<^verbatim>\<open>bytes\<close> are lists of \<^typ>\<open>char\<close> (a \<^typ>\<open>char\<close> is one byte),
  Python integers are \<^typ>\<open>int\<close>, counters that only count up from zero are
  \<^typ>\<open>nat\<close>.
\<close>

type_synonym bytes = "char list"

subsection \<open>Python built-ins used by the checksum\<close>

text \<open>\<^verbatim>\<open>bin(n)\<close> for \<open>n \<ge> 0\<close>: the prefix \<^verbatim>\<open>0b\<close> and the binary digits,
  most significant first.\<close>

fun bin_digits :: "nat \<Rightarrow> string" where
  "bin_digits n =
     (if n < 2 then [if n = 0 then CHR ''0'' else CHR ''1'']
      else bin_digits (n div 2) @ [if n mod 2 = 0 then CHR ''0'' else CHR ''1''])"

declare bin_digits.simps [simp del]

definition py_bin :: "nat \<Rightarrow> string" where
  "py_bin n = ''0b'' @ bin_digits n"

text \<open>\<^verbatim>\<open>s.count('1')\<close> with a one-character argument counts the occurrences of
  that character.\<close>

definition py_count :: "string \<Rightarrow> char \<Rightarrow> nat" where
  "py_count s c = count_list s c"

text \<open>\<^verbatim>\<open>str(i)\<close> for an integer: decimal digits, a minus sign for negatives.\<close>

definition digit_char :: "nat \<Rightarrow> char" where
  "digit_char d = ''0123456789'' ! d"

fun dec_digits :: "nat \<Rightarrow> string" where
  "dec_digits n =
     (if n < 10 then [digit_char n]
      else dec_digits (n div 10) @ [digit_char (n mod 10)])"

declare dec_digits.simps [simp del]

definition py_str :: "int \<Rightarrow> string" where
  "py_str i = (if i < 0 then CHR ''-'' # dec_digits (nat (- i)) else dec_digits (nat i))"

text \<open>\<^verbatim>\<open>s.zfill(width)\<close>: a string at least \<open>width\<close> long is returned as it is;
  a shorter one gets zeros on the left, after a leading sign if there is one.\<close>

definition py_zfill :: "nat \<Rightarrow> string \<Rightarrow> string" where
  "py_zfill width s =
     (if width \<le> length s then s
      else (case s of
              [] \<Rightarrow> replicate width CHR ''0''
            | c # rest \<Rightarrow>
                if c = CHR ''+'' \<or> c = CHR ''-''
                then c # replicate (width - length s) CHR ''0'' @ rest
                else replicate (width - length s) CHR ''0'' @ s))"

text \<open>\<^verbatim>\<open>b.decode('utf-8')\<close> raises \<^verbatim>\<open>UnicodeDecodeError\<close> unless the bytes are
  well-formed UTF-8: no stray continuation byte, no truncated sequence, no overlong
  form, no surrogate, nothing above U+10FFFF. \<open>utf8_valid\<close> says whether it returns.\<close>

definition between :: "nat \<Rightarrow> nat \<Rightarrow> char \<Rightarrow> bool" where
  "between lo hi c = (lo \<le> of_char c \<and> (of_char c :: nat) \<le> hi)"

fun utf8_valid :: "bytes \<Rightarrow> bool" where
  "utf8_valid [] = True"
| "utf8_valid [b] = between 0x00 0x7F b"
| "utf8_valid [b, c1] =
     (if between 0x00 0x7F b then utf8_valid [c1]
      else between 0xC2 0xDF b \<and> between 0x80 0xBF c1)"
| "utf8_valid [b, c1, c2] =
     (if between 0x00 0x7F b then utf8_valid [c1, c2]
      else if between 0xC2 0xDF b then between 0x80 0xBF c1 \<and> utf8_valid [c2]
      else if between 0xE0 0xE0 b then between 0xA0 0xBF c1 \<and> between 0x80 0xBF c2
      else if between 0xED 0xED b then between 0x80 0x9F c1 \<and> between 0x80 0xBF c2
      else between 0xE1 0xEF b \<and> between 0x80 0xBF c1 \<and> between 0x80 0xBF c2)"
| "utf8_valid (b # c1 # c2 # c3 # rest) =
     (if between 0x00 0x7F b then utf8_valid (c1 # c2 # c3 # rest)
      else if between 0xC2 0xDF b then between 0x80 0xBF c1 \<and> utf8_valid (c2 # c3 # rest)
      else if between 0xE0 0xE0 b
        then between 0xA0 0xBF c1 \<and> between 0x80 0xBF c2 \<and> utf8_valid (c3 # rest)
      else if between 0xED 0xED b
        then between 0x80 0x9F c1 \<and> between 0x80 0xBF c2 \<and> utf8_valid (c3 # rest)
      else if between 0xE1 0xEF b
        then between 0x80 0xBF c1 \<and> between 0x80 0xBF c2 \<and> utf8_valid (c3 # rest)
      else if between 0xF0 0xF0 b
        then between 0x90 0xBF c1 \<and> between 0x80 0xBF c2 \<and> between 0x80 0xBF c3
             \<and> utf8_valid rest
      else if between 0xF4 0xF4 b
        then between 0x80 0x8F c1 \<and> between 0x80 0xBF c2 \<and> between 0x80 0xBF c3
             \<and> utf8_valid rest
      else between 0xF1 0xF3 b \<and> between 0x80 0xBF c1 \<and> between 0x80 0xBF c2
           \<and> between 0x80 0xBF c3 \<and> utf8_valid rest)"

subsection \<open>The checksum (identical in client.py and server.py)\<close>

text \<open>
  \<^verbatim>\<open>
  def create_checksum(seq, data):
      data_bytes = data.encode('utf-8') if isinstance(data, str) else data
      bit_sum = sum(bin(byte).count('1') for byte in data_bytes)
      checksum = str(bit_sum).zfill(8).encode('utf-8')
      return checksum

  def verify_checksum(seq, checksum, data):
      data_bytes = data.encode('utf-8') if isinstance(data, str) else data
      bit_sum = sum(bin(byte).count('1') for byte in data_bytes)
      expected_checksum = str(bit_sum).zfill(8).encode('utf-8')
      return checksum == expected_checksum
  \<close>
  Every call in the two programs passes \<^verbatim>\<open>bytes\<close> as \<open>data\<close> (an encoded
  f-string, or a payload that \<^verbatim>\<open>packet.extract\<close> returned), so \<open>data\<close> is
  modelled as \<^typ>\<open>bytes\<close> and \<open>data_bytes\<close> is \<open>data\<close>; the \<^verbatim>\<open>str\<close>
  alternative of \<open>data\<close> is outside the model. \<^verbatim>\<open>str(bit_sum).zfill(8)\<close> consists of
  ASCII digits, which \<^verbatim>\<open>encode('utf-8')\<close> maps to the same bytes.
\<close>

definition bit_sum :: "bytes \<Rightarrow> nat" where
  "bit_sum data_bytes = sum_list (map (\<lambda>byte. py_count (py_bin (of_char byte)) CHR ''1'') data_bytes)"

definition create_checksum :: "int \<Rightarrow> bytes \<Rightarrow> bytes" where
  "create_checksum seq data =
     (let data_bytes = data;
          checksum = py_zfill 8 (py_str (int (bit_sum data_bytes)))
      in checksum)"

definition verify_checksum :: "int \<Rightarrow> bytes \<Rightarrow> bytes \<Rightarrow> bool" where
  "verify_checksum seq checksum data =
     (let data_bytes = data;
          expected_checksum = py_zfill 8 (py_str (int (bit_sum data_bytes)))
      in checksum = expected_checksum)"

subsection \<open>The digest as the specification words it\<close>

text \<open>The specification's \<open>compute\<close>: count the set bits over all bytes of the payload,
  render the count in decimal, pad with zeros on the left to 8 characters.\<close>

definition set_bits :: "char \<Rightarrow> nat" where
  "set_bits c =
     sum_list (map of_bool
       [digit0 c, digit1 c, digit2 c, digit3 c, digit4 c, digit5 c, digit6 c, digit7 c])"

definition compute :: "bytes \<Rightarrow> bytes" where
  "compute payload =
     (let count = sum_list (map set_bits payload);
          rendered = dec_digits count
      in replicate (8 - length rendered) CHR ''0'' @ rendered)"

text \<open>The number of ones in the binary expansion of a number, used to relate the
  two.\<close>

fun ones :: "nat \<Rightarrow> nat" where
  "ones n = (if n = 0 then 0 else n mod 2 + ones (n div 2))"

declare ones.simps [simp del]

section \<open>The packet codec\<close>

text \<open>
  Both programs build packets with \<^verbatim>\<open>packet.make(seq, checksum, data)\<close> and take
  them apart with \<^verbatim>\<open>packet.extract(pkt)\<close>, which returns the triple
  \<^verbatim>\<open>(seq, checksum, data)\<close>. The state machines below take the two functions as
  parameters, so what is proved about them holds for every codec. \<open>extract\<close> returns
  \<open>None\<close> where the Python function raises.
\<close>

type_synonym codec_make = "int \<Rightarrow> bytes \<Rightarrow> bytes \<Rightarrow> bytes"
type_synonym codec_extract = "bytes \<Rightarrow> (int \<times> bytes \<times> bytes) option"

text \<open>
  Modelled from the spec: the module \<^verbatim>\<open>packet\<close> is imported by both programs but
  is not among the source files. The specification asks for a fixed-width sequence
  field (0 to 255), a fixed 8-byte checksum field and the remaining bytes as payload,
  and for a decoder that fails with \<open>MalformedPacket\<close> exactly when the blob is shorter
  than the header. This codec uses one byte for the sequence number; it serves as the
  concrete codec of the examples.
\<close>

definition packet_make :: codec_make where
  "packet_make seq checksum data = char_of seq # checksum @ data"

definition packet_extract :: codec_extract where
  "packet_extract pkt =
     (if length pkt < 9 then None
      else Some (of_char (hd pkt), take 8 (tl pkt), drop 9 pkt))"

section \<open>The receiver (server.py)\<close>

text \<open>
  \<^verbatim>\<open>
  expected_seq = 0
  try:
      while True:
          pkt, addr = udt.recv(sock)
          seq, checksum, dataRcvd = packet.extract(pkt)
          if verify_checksum(seq, checksum, dataRcvd):
              if seq == expected_seq:
                  expected_seq = (expected_seq + 1) % 256
              ack_message = f"ACK-{seq}".encode('utf-8')
              ack_checksum = create_checksum(seq, ack_message)
              ack_pkt = packet.make(seq, ack_checksum, ack_message)
              udt.send(ack_pkt, sock, addr)
              if dataRcvd == b'DONE':
                  break
          else:
              pass   # dropped, no ACK
  except Exception as e:
      print(f"Server: Error: {e}")
  finally:
      sock.close()
  \<close>
  The \<^verbatim>\<open>try\<close> encloses the loop, so an exception raised in the body ends the
  loop. One pass through the body is \<open>server_body\<close>: from \<open>expected_seq\<close> and the
  datagram that \<^verbatim>\<open>udt.recv\<close> returned it gives the new \<open>expected_seq\<close>, the
  calls of \<^verbatim>\<open>udt.send\<close> (packet and destination) and how control leaves the body.
\<close>

type_synonym addr = "string \<times> nat"

datatype flow = Continue | Break | Raise

definition server_body ::
  "codec_make \<Rightarrow> codec_extract \<Rightarrow> int \<Rightarrow> bytes \<times> addr \<Rightarrow> int \<times> (bytes \<times> addr) list \<times> flow" where
  "server_body mk ex expected_seq rcvd =
     (case rcvd of (pkt, addr) \<Rightarrow>
        (case ex pkt of
           None \<Rightarrow> (expected_seq, [], Raise)
         | Some (seq, checksum, dataRcvd) \<Rightarrow>
             if verify_checksum seq checksum dataRcvd then
               (let expected_seq' =
                      (if seq = expected_seq then (expected_seq + 1) mod 256 else expected_seq);
                    ack_message = ''ACK-'' @ py_str seq;
                    ack_checksum = create_checksum seq ack_message;
                    ack_pkt = mk seq ack_checksum ack_message
                in (expected_seq', [(ack_pkt, addr)],
                    if dataRcvd = ''DONE'' then Break else Continue))
             else (expected_seq, [], Continue)))"

text \<open>The loop, over the datagrams that arrive. It ends \<open>Waiting\<close> (blocked in
  \<^verbatim>\<open>udt.recv\<close>) when nothing more arrives, \<open>Shutdown\<close> after the \<^verbatim>\<open>break\<close>,
  \<open>Failed\<close> when the exception handler around the loop ran; in the last two cases
  the socket is closed and the datagrams that follow are never read.\<close>

datatype ending = Waiting | Shutdown | Failed

record server_run =
  final_expected :: int
  sent :: "(bytes \<times> addr) list"
  ending :: ending

fun server_loop ::
  "codec_make \<Rightarrow> codec_extract \<Rightarrow> int \<Rightarrow> (bytes \<times> addr) list \<Rightarrow> (bytes \<times> addr) list \<Rightarrow> server_run" where
  "server_loop mk ex expected_seq out [] =
     \<lparr>final_expected = expected_seq, sent = out, ending = Waiting\<rparr>"
| "server_loop mk ex expected_seq out (rcvd # rest) =
     (case server_body mk ex expected_seq rcvd of
        (expected_seq', acks, Continue) \<Rightarrow> server_loop mk ex expected_seq' (out @ acks) rest
      | (expected_seq', acks, Break) \<Rightarrow>
          \<lparr>final_expected = expected_seq', sent = out @ acks, ending = Shutdown\<rparr>
      | (expected_seq', acks, Raise) \<Rightarrow>
          \<lparr>final_expected = expected_seq', sent = out @ acks, ending = Failed\<rparr>)"

definition server_main :: "codec_make \<Rightarrow> codec_extract \<Rightarrow> (bytes \<times> addr) list \<Rightarrow> server_run" where
  "server_main mk ex arrivals = server_loop mk ex 0 [] arrivals"

section \<open>The sender (client.py)\<close>

text \<open>
  The sender talks to the outside through \<^verbatim>\<open>udt.send\<close>, \<^verbatim>\<open>udt.recv\<close> on a
  non-blocking socket, and a \<^verbatim>\<open>timer.Timer\<close> that it polls. What the outside
  does is an input of the model: for every run of the timer, the list of results
  that \<^verbatim>\<open>udt.recv\<close> gives until the timer expires (nothing pending, a datagram,
  or some other exception). The timer expires after finitely many polls, so every
  real run is the run on one such input. What the sender does is recorded in a trace
  of events: every call of \<^verbatim>\<open>udt.send\<close> (with the sequence number and the
  payload that went into the packet), every \<^verbatim>\<open>mytimer.start()\<close> (with the
  duration the timer object was built with), and every reply at which the sender
  sets \<^verbatim>\<open>ack_received\<close> or \<^verbatim>\<open>done_received\<close>.
\<close>

text \<open>
  Modelled from the spec: the modules \<^verbatim>\<open>udt\<close> and \<^verbatim>\<open>timer\<close> are imported
  by the programs but are not among the source files. The specification describes
  the transport as a non-blocking receive that gives a datagram or signals that
  nothing is pending, with no guarantee of delivery, order or integrity, and the
  timer as a poll-based countdown whose \<open>expired\<close> query is false until the
  configured duration has elapsed since the last \<open>start\<close>. \<open>poll\<close> is one result
  of \<^verbatim>\<open>udt.recv\<close>; one list of polls is one run of the timer.
\<close>

datatype poll = BlockingIOError | Datagram bytes | OtherError

datatype event = Send int bytes bytes | Start rat | Accept bytes

text \<open>The variables of \<^verbatim>\<open>main\<close> that live across the loops (\<open>cur_seq\<close> is the
  variable \<^verbatim>\<open>seq\<close>; \<open>mytimer\<close> is the duration of the timer object), the input
  that is left, and the trace so far.\<close>

record client =
  cur_seq :: int
  timeout_value :: rat
  mytimer :: rat
  polls :: "poll list list"
  trace :: "event list"

definition max_retries :: nat where
  "max_retries = 10"

text \<open>
  The wait for an acknowledgement in the message loop:
  \<^verbatim>\<open>
  while mytimer.running() and not mytimer.timeout():
      try:
          rcvpkt, addr = udt.recv(sock)
          if rcvpkt:
              ack_seq, ack_checksum, dataRcvd = packet.extract(rcvpkt)
              if verify_checksum(ack_seq, ack_checksum, dataRcvd):
                  print(f"Client: Received valid ACK: {dataRcvd.decode('utf-8')}")
                  if ack_seq == seq:
                      ack_received = True
                      break
      except BlockingIOError:
          time.sleep(0.01)
      except Exception as e:
          print(f"Client: Error receiving: {e}")
  \<close>
  The result is the reply at which \<^verbatim>\<open>ack_received\<close> was set, or \<open>None\<close> when
  the timer expired first. The \<^verbatim>\<open>print\<close> after the checksum test decodes the
  payload; when that raises, the handler at the end catches it and the loop goes on.
\<close>

fun main_wait :: "codec_extract \<Rightarrow> int \<Rightarrow> poll list \<Rightarrow> bytes option" where
  "main_wait ex seq [] = None"
| "main_wait ex seq (BlockingIOError # ps) = main_wait ex seq ps"
| "main_wait ex seq (OtherError # ps) = main_wait ex seq ps"
| "main_wait ex seq (Datagram rcvpkt # ps) =
     (if rcvpkt \<noteq> [] then
        (case ex rcvpkt of
           None \<Rightarrow> main_wait ex seq ps
         | Some (ack_seq, ack_checksum, dataRcvd) \<Rightarrow>
             if verify_checksum ack_seq ack_checksum dataRcvd then
               if utf8_valid dataRcvd then
                 if ack_seq = seq then Some rcvpkt
                 else main_wait ex seq ps
               else main_wait ex seq ps
             else main_wait ex seq ps)
      else main_wait ex seq ps)"

text \<open>
  The wait in the \<^verbatim>\<open>finally\<close> block, for the acknowledgement of \<^verbatim>\<open>DONE\<close>:
  \<^verbatim>\<open>
  while mytimer.running() and not mytimer.timeout():
      try:
          rcvpkt, addr = udt.recv(sock)
          if rcvpkt:
              ack_seq, ack_checksum, dataRcvd = packet.extract(rcvpkt)
              if verify_checksum(ack_seq, ack_checksum, dataRcvd) and ack_seq == seq:
                  done_received = True
                  break
      except:
          time.sleep(0.01)
  \<close>
\<close>

fun done_wait :: "codec_extract \<Rightarrow> int \<Rightarrow> poll list \<Rightarrow> bytes option" where
  "done_wait ex seq [] = None"
| "done_wait ex seq (BlockingIOError # ps) = done_wait ex seq ps"
| "done_wait ex seq (OtherError # ps) = done_wait ex seq ps"
| "done_wait ex seq (Datagram rcvpkt # ps) =
     (if rcvpkt \<noteq> [] then
        (case ex rcvpkt of
           None \<Rightarrow> done_wait ex seq ps
         | Some (ack_seq, ack_checksum, dataRcvd) \<Rightarrow>
             if verify_checksum ack_seq ack_checksum dataRcvd \<and> ack_seq = seq
             then Some rcvpkt
             else done_wait ex seq ps)
      else done_wait ex seq ps)"

text \<open>The polls of the next run of the timer; a run for which the input lists
  nothing expires before the first poll.\<close>

definition next_polls :: "poll list list \<Rightarrow> poll list" where
  "next_polls pss = (case pss of [] \<Rightarrow> [] | ps # rest \<Rightarrow> ps)"

definition later_polls :: "poll list list \<Rightarrow> poll list list" where
  "later_polls pss = (case pss of [] \<Rightarrow> [] | ps # rest \<Rightarrow> rest)"

text \<open>
  The retry loop of one message (\<open>retries\<close> and \<open>ack_received\<close> are its loop
  variables; the result is \<open>ack_received\<close> and the state at the exit):
  \<^verbatim>\<open>
  while not ack_received and retries < max_retries:
      udt.send(pkt, sock, server_address)
      mytimer.start()
      ...wait...
      mytimer.stop()
      if not ack_received:
          retries += 1
          if retries > 1:
              timeout_value = min(timeout_value * 1.5, 5.0)
              mytimer = t.Timer(timeout_value)
  \<close>
  The durations are Python floats. They are modelled as rationals: the values that
  occur (1, 3/2, 9/4, 27/8, 5; see \<open>timeout_values\<close> below) and the products
  formed from them are dyadic rationals with a few bits, which binary floating point
  represents and multiplies exactly.
\<close>

function main_while ::
  "codec_extract \<Rightarrow> bytes \<Rightarrow> bytes \<Rightarrow> nat \<Rightarrow> client \<Rightarrow> bool \<times> client" where
  "main_while ex texttosend pkt retries st =
     (if retries < max_retries then
        (let st1 = st\<lparr>trace := trace st @ [Send (cur_seq st) texttosend pkt, Start (mytimer st)],
                      polls := later_polls (polls st)\<rparr>
         in case main_wait ex (cur_seq st) (next_polls (polls st)) of
              Some rcvpkt \<Rightarrow> (True, st1\<lparr>trace := trace st1 @ [Accept rcvpkt]\<rparr>)
            | None \<Rightarrow>
                (let retries' = retries + 1
                 in if retries' > 1
                    then main_while ex texttosend pkt retries'
                           (st1\<lparr>timeout_value := min (timeout_value st1 * (3 / 2)) 5,
                                mytimer := min (timeout_value st1 * (3 / 2)) 5\<rparr>)
                    else main_while ex texttosend pkt retries' st1))
      else (False, st))"
  by pat_completeness auto
termination
  by (relation "measure (\<lambda>(ex, texttosend, pkt, retries, st). max_retries - retries)") auto

declare main_while.simps [simp del]

text \<open>
  The message loop, over the message numbers that are left:
  \<^verbatim>\<open>
  for message_num in range(20):
      retries = 0
      ack_received = False
      texttosend = f"Message-{message_num}-Seq-{seq}".encode('utf-8')
      checksum = create_checksum(seq, texttosend)
      pkt = packet.make(seq, checksum, texttosend)
      ...retry loop...
      if not ack_received:
          break
      seq = (seq + 1) % 256
  \<close>
\<close>

fun main_for :: "codec_make \<Rightarrow> codec_extract \<Rightarrow> nat list \<Rightarrow> client \<Rightarrow> client" where
  "main_for mk ex [] st = st"
| "main_for mk ex (message_num # rest) st =
     (let texttosend = ''Message-'' @ py_str (int message_num) @ ''-Seq-'' @ py_str (cur_seq st);
          checksum = create_checksum (cur_seq st) texttosend;
          pkt = mk (cur_seq st) checksum texttosend
      in case main_while ex texttosend pkt 0 st of
           (ack_received, st') \<Rightarrow>
             if \<not> ack_received then st'
             else main_for mk ex rest (st'\<lparr>cur_seq := (cur_seq st' + 1) mod 256\<rparr>))"

text \<open>
  The \<^verbatim>\<open>finally\<close> block:
  \<^verbatim>\<open>
  texttosend = "DONE".encode('utf-8')
  checksum = create_checksum(seq, texttosend)
  pkt = packet.make(seq, checksum, texttosend)
  done_received = False
  retries = 0
  while not done_received and retries < max_retries:
      udt.send(pkt, sock, server_address)
      mytimer.start()
      ...wait...
      mytimer.stop()
      if not done_received:
          retries += 1
  \<close>
\<close>

function done_while ::
  "codec_extract \<Rightarrow> bytes \<Rightarrow> bytes \<Rightarrow> nat \<Rightarrow> client \<Rightarrow> bool \<times> client" where
  "done_while ex texttosend pkt retries st =
     (if retries < max_retries then
        (let st1 = st\<lparr>trace := trace st @ [Send (cur_seq st) texttosend pkt, Start (mytimer st)],
                      polls := later_polls (polls st)\<rparr>
         in case done_wait ex (cur_seq st) (next_polls (polls st)) of
              Some rcvpkt \<Rightarrow> (True, st1\<lparr>trace := trace st1 @ [Accept rcvpkt]\<rparr>)
            | None \<Rightarrow> done_while ex texttosend pkt (retries + 1) st1)
      else (False, st))"
  by pat_completeness auto
termination
  by (relation "measure (\<lambda>(ex, texttosend, pkt, retries, st). max_retries - retries)") auto

declare done_while.simps [simp del]

definition main_finally :: "codec_make \<Rightarrow> codec_extract \<Rightarrow> client \<Rightarrow> client" where
  "main_finally mk ex st =
     (let texttosend = ''DONE'';
          checksum = create_checksum (cur_seq st) texttosend;
          pkt = mk (cur_seq st) checksum texttosend
      in snd (done_while ex texttosend pkt 0 st))"

text \<open>The whole of \<^verbatim>\<open>main\<close>: the initial values, the \<^verbatim>\<open>try\<close> block with the
  message loop, then the \<^verbatim>\<open>finally\<close> block.\<close>

definition client_init :: "poll list list \<Rightarrow> client" where
  "client_init input =
     \<lparr>cur_seq = 0, timeout_value = 1, mytimer = 1, polls = input, trace = []\<rparr>"

definition main_try :: "codec_make \<Rightarrow> codec_extract \<Rightarrow> poll list list \<Rightarrow> client" where
  "main_try mk ex input = main_for mk ex [0..<20] (client_init input)"

definition client_main :: "codec_make \<Rightarrow> codec_extract \<Rightarrow> poll list list \<Rightarrow> client" where
  "client_main mk ex input = main_finally mk ex (main_try mk ex input)"

section \<open>Reading a trace\<close>

text \<open>A reply acknowledges sequence number \<open>n\<close> when it decodes, its checksum
  verifies against its payload and its sequence field is \<open>n\<close>.\<close>

definition acks :: "codec_extract \<Rightarrow> int \<Rightarrow> bytes \<Rightarrow> bool" where
  "acks ex n reply =
     (case ex reply of
        None \<Rightarrow> False
      | Some (ack_seq, ack_checksum, dataRcvd) \<Rightarrow>
          verify_checksum ack_seq ack_checksum dataRcvd \<and> ack_seq = n)"

text \<open>A monitor reads a trace event by event; \<open>None\<close> is a violation.\<close>

fun monitor :: "('s \<Rightarrow> event \<Rightarrow> 's option) \<Rightarrow> 's \<Rightarrow> event list \<Rightarrow> 's option" where
  "monitor step s [] = Some s"
| "monitor step s (e # es) =
     (case step s e of None \<Rightarrow> None | Some s' \<Rightarrow> monitor step s' es)"

text \<open>
  One packet in flight. The monitor remembers the sequence number of the last
  transmission and whether a reply acknowledging it has been accepted since that
  number was first sent. A transmission may repeat the number; it may carry another
  number only if that is the successor modulo 256 and the acknowledgement is there.
\<close>

datatype flight = Idle | Outstanding int bool

fun flight_step :: "codec_extract \<Rightarrow> flight \<Rightarrow> event \<Rightarrow> flight option" where
  "flight_step ex f (Start d) = Some f"
| "flight_step ex Idle (Accept r) = Some Idle"
| "flight_step ex (Outstanding n a) (Accept r) = Some (Outstanding n (a \<or> acks ex n r))"
| "flight_step ex Idle (Send s p k) = Some (Outstanding s False)"
| "flight_step ex (Outstanding n a) (Send s p k) =
     (if s = n then Some (Outstanding n a)
      else if a \<and> s = (n + 1) mod 256 then Some (Outstanding s False)
      else None)"

definition one_in_flight :: "codec_extract \<Rightarrow> event list \<Rightarrow> bool" where
  "one_in_flight ex tr = (monitor (flight_step ex) Idle tr \<noteq> None)"

text \<open>
  The timeout policy. The monitor counts the transmissions since the last accepted
  reply (\<open>k\<close>, the attempt of the current message), remembers the duration of the
  last timer run (\<open>d\<close>) and whether the last transmission carried the termination
  payload. In the message loop a timer run must have the duration \<open>fresh d\<close> for the
  first attempt of a message, the same duration again for the second attempt (the
  first retry), and \<open>min (d * 3/2) 5\<close> from the third attempt (the second retry) on.
  \<open>fresh\<close> says with what a new message begins: the base duration 1 if the timeout
  is reset, \<open>d\<close> if it is carried over. Every timer run of the termination message
  must have the duration of the run before it.
\<close>

fun timeout_step ::
  "(rat \<Rightarrow> rat) \<Rightarrow> nat \<times> rat \<times> bool \<Rightarrow> event \<Rightarrow> (nat \<times> rat \<times> bool) option" where
  "timeout_step fresh (k, d, fin) (Send s p pkt) = Some (k + 1, d, p = ''DONE'')"
| "timeout_step fresh (k, d, fin) (Accept r) = Some (0, d, fin)"
| "timeout_step fresh (k, d, fin) (Start d') =
     (if d' = (if fin then d
               else if k \<le> 1 then fresh d
               else if k = 2 then d
               else min (d * (3 / 2)) 5)
      then Some (k, d', fin) else None)"

definition timeout_policy :: "(rat \<Rightarrow> rat) \<Rightarrow> event list \<Rightarrow> bool" where
  "timeout_policy fresh tr = (monitor (timeout_step fresh) (0, 1, False) tr \<noteq> None)"

text \<open>
  The wait as the specification words it (4.4, step 4): of what arrives before the
  timer expires, the first reply that passes checksum verification and carries the
  outstanding sequence number ends the wait; every other reply is dropped and the
  polling goes on. An empty datagram is no reply.
\<close>

definition answers :: "codec_extract \<Rightarrow> int \<Rightarrow> poll \<Rightarrow> bool" where
  "answers ex n q = (case q of Datagram r \<Rightarrow> r \<noteq> [] \<and> acks ex n r | _ \<Rightarrow> False)"

definition first_ack :: "codec_extract \<Rightarrow> int \<Rightarrow> poll list \<Rightarrow> bytes option" where
  "first_ack ex n ps =
     (case find (answers ex n) ps of Some (Datagram r) \<Rightarrow> Some r | _ \<Rightarrow> None)"

text \<open>An input on which every one of the 20 messages is acknowledged in its first
  timer run, and nothing arrives afterwards.\<close>

definition all_acknowledged :: "poll list list" where
  "all_acknowledged =
     [[Datagram (packet_make 0 ''00000015'' ''ACK-0'')],
      [Datagram (packet_make 1 ''00000016'' ''ACK-1'')],
      [Datagram (packet_make 2 ''00000016'' ''ACK-2'')],
      [Datagram (packet_make 3 ''00000017'' ''ACK-3'')],
      [Datagram (packet_make 4 ''00000016'' ''ACK-4'')],
      [Datagram (packet_make 5 ''00000017'' ''ACK-5'')],
      [Datagram (packet_make 6 ''00000017'' ''ACK-6'')],
      [Datagram (packet_make 7 ''00000018'' ''ACK-7'')],
      [Datagram (packet_make 8 ''00000016'' ''ACK-8'')],
      [Datagram (packet_make 9 ''00000017'' ''ACK-9'')],
      [Datagram (packet_make 10 ''00000018'' ''ACK-10'')],
      [Datagram (packet_make 11 ''00000019'' ''ACK-11'')],
      [Datagram (packet_make 12 ''00000019'' ''ACK-12'')],
      [Datagram (packet_make 13 ''00000020'' ''ACK-13'')],
      [Datagram (packet_make 14 ''00000019'' ''ACK-14'')],
      [Datagram (packet_make 15 ''00000020'' ''ACK-15'')],
      [Datagram (packet_make 16 ''00000020'' ''ACK-16'')],
      [Datagram (packet_make 17 ''00000021'' ''ACK-17'')],
      [Datagram (packet_make 18 ''00000019'' ''ACK-18'')],
      [Datagram (packet_make 19 ''00000020'' ''ACK-19'')]]"

text \<open>The durations of the timer runs of a trace, in order, and the transmissions
  of the termination payload.\<close>

fun durations :: "event list \<Rightarrow> rat list" where
  "durations [] = []"
| "durations (Start d # es) = d # durations es"
| "durations (Send s p k # es) = durations es"
| "durations (Accept r # es) = durations es"

fun done_sends :: "event list \<Rightarrow> event list" where
  "done_sends [] = []"
| "done_sends (Send s p k # es) = (if p = ''DONE'' then Send s p k # done_sends es else done_sends es)"
| "done_sends (Start d # es) = done_sends es"
| "done_sends (Accept r # es) = done_sends es"

section \<open>Notions used in the proofs\<close>

text \<open>The state after one attempt (the packet sent, the timer started, the polls of
  that timer run consumed), after the backoff that follows a timeout, and after a
  reply was accepted.\<close>

definition attempted :: "bytes \<Rightarrow> bytes \<Rightarrow> client \<Rightarrow> client" where
  "attempted texttosend pkt st =
     st\<lparr>trace := trace st @ [Send (cur_seq st) texttosend pkt, Start (mytimer st)],
        polls := later_polls (polls st)\<rparr>"

definition backed_off :: "nat \<Rightarrow> client \<Rightarrow> client" where
  "backed_off retries st =
     (if retries > 1
      then st\<lparr>timeout_value := min (timeout_value st * (3 / 2)) 5,
              mytimer := min (timeout_value st * (3 / 2)) 5\<rparr>
      else st)"

definition accepted :: "bytes \<Rightarrow> client \<Rightarrow> client" where
  "accepted rcvpkt st = st\<lparr>trace := trace st @ [Accept rcvpkt]\<rparr>"

text \<open>The payload of a message and the packet built from a payload, as the message
  loop and the \<^verbatim>\<open>finally\<close> block compute them.\<close>

definition message :: "nat \<Rightarrow> int \<Rightarrow> bytes" where
  "message message_num s = ''Message-'' @ py_str (int message_num) @ ''-Seq-'' @ py_str s"

definition packet_of :: "codec_make \<Rightarrow> int \<Rightarrow> bytes \<Rightarrow> bytes" where
  "packet_of mk s texttosend = mk s (create_checksum s texttosend) texttosend"

text \<open>What the one-in-flight monitor lets the sender transmit next.\<close>

fun may_send :: "flight \<Rightarrow> int \<Rightarrow> bool" where
  "may_send Idle s = True"
| "may_send (Outstanding n a) s = (s = n \<or> (a \<and> s = (n + 1) mod 256))"

text \<open>The durations that occur, and the invariant of the timer: the durations used
  so far are ascending and bounded by the current one.\<close>

definition timeout_values :: "rat set" where
  "timeout_values = {1, 3 / 2, 9 / 4, 27 / 8, 5}"

definition timer_ok :: "client \<Rightarrow> bool" where
  "timer_ok st \<longleftrightarrow>
     sorted (durations (trace st)) \<and> (\<forall>x \<in> set (durations (trace st)). x \<le> mytimer st)
     \<and> set (durations (trace st)) \<subseteq> timeout_values
     \<and> timeout_value st = mytimer st \<and> mytimer st \<in> timeout_values"

text \<open>The policy monitor along the retry loop of a message: at the head of the loop
  the monitor has counted \<open>retries\<close> attempts, and the timer is set to what the next
  attempt must use. \<open>attempt_floor r\<close> is the least duration that the \<open>r\<close>-th attempt
  of a message can have; from the sixth attempt on the duration is 5.\<close>

definition attempt_floor :: "nat \<Rightarrow> rat" where
  "attempt_floor r =
     (if r \<le> 2 then 1 else if r = 3 then 3 / 2 else if r = 4 then 9 / 4
      else if r = 5 then 27 / 8 else 5)"

definition policy_at :: "nat \<Rightarrow> client \<Rightarrow> bool" where
  "policy_at r st \<longleftrightarrow>
     (\<exists>d. monitor (timeout_step (\<lambda>d. d)) (0, 1, False) (trace st) = Some (r, d, False)
        \<and> timeout_value st = mytimer st
        \<and> mytimer st = (if r < 2 then d else min (d * (3 / 2)) 5)
        \<and> d \<in> timeout_values \<and> attempt_floor r \<le> d)"

text \<open>Between the messages, and along the termination message: the timer is set
  to the duration of the last timer run.\<close>

definition policy_ready :: "client \<Rightarrow> bool" where
  "policy_ready st \<longleftrightarrow>
     (\<exists>k d fin. monitor (timeout_step (\<lambda>d. d)) (0, 1, False) (trace st) = Some (k, d, fin)
        \<and> mytimer st = d)"

text \<open>Every timer run of an input brings a reply that the message loop accepts for
  the sequence number of its turn.\<close>

fun acked_in_turn :: "codec_extract \<Rightarrow> int \<Rightarrow> poll list list \<Rightarrow> bool" where
  "acked_in_turn ex s [] = True"
| "acked_in_turn ex s (ps # pss) =
     (main_wait ex s ps \<noteq> None \<and> acked_in_turn ex ((s + 1) mod 256) pss)"

section \<open>Properties of the checksum\<close>

lemma count_bin_digits: "count_list (bin_digits n) CHR ''1'' = ones n"
proof (induction n rule: bin_digits.induct)
  case (1 n)
  show ?case
  proof (cases "n < 2")
    case True
    then have "n = 0 \<or> n = 1" by arith
    then show ?thesis
      by (auto simp: bin_digits.simps [of 0] bin_digits.simps [of 1]
          bin_digits.simps [of "Suc 0"] ones.simps [of 0] ones.simps [of 1]
          ones.simps [of "Suc 0"])
  next
    case False
    then have "count_list (bin_digits (n div 2)) CHR ''1'' = ones (n div 2)"
      using 1 by simp
    moreover have "n mod 2 = 0 \<or> n mod 2 = 1" by arith
    ultimately show ?thesis
      using False by (subst bin_digits.simps, subst ones.simps) auto
  qed
qed

lemma ones_double: "ones (of_bool b + 2 * m) = of_bool b + ones m"
  by (subst ones.simps) (auto simp: ones.simps [of 0])

lemma ones_of_char: "ones (of_char c) = set_bits c"
proof (cases c)
  case (Char b0 b1 b2 b3 b4 b5 b6 b7)
  have "ones (of_char c) =
        ones (of_bool b0 + 2 * (of_bool b1 + 2 * (of_bool b2 + 2 * (of_bool b3 + 2 *
             (of_bool b4 + 2 * (of_bool b5 + 2 * (of_bool b6 + 2 * (of_bool b7 + 2 * 0))))))))"
    unfolding Char of_char_Char by (simp only: horner_sum_simps)
  also have "\<dots> = set_bits c"
    unfolding ones_double by (simp add: Char set_bits_def ones.simps [of 0])
  finally show ?thesis .
qed

lemma count_bin: "py_count (py_bin (of_char c)) CHR ''1'' = set_bits c"
  by (simp add: py_count_def py_bin_def count_bin_digits ones_of_char)

lemma bit_sum_set_bits: "bit_sum data = sum_list (map set_bits data)"
  by (simp add: bit_sum_def count_bin)

lemma digit_char_not_sign:
  "d < 10 \<Longrightarrow> digit_char d \<noteq> CHR ''+'' \<and> digit_char d \<noteq> CHR ''-''"
proof -
  assume "d < 10"
  then have "d \<in> {0, 1, 2, 3, 4, 5, 6, 7, 8, 9}" by auto
  then show ?thesis by (auto simp: digit_char_def)
qed

lemma dec_digits_nonempty: "dec_digits n \<noteq> []"
  by (subst dec_digits.simps) simp

lemma hd_dec_digits_not_sign:
  "hd (dec_digits n) \<noteq> CHR ''+'' \<and> hd (dec_digits n) \<noteq> CHR ''-''"
proof (induction n rule: dec_digits.induct)
  case (1 n)
  show ?case
  proof (cases "n < 10")
    case True
    then show ?thesis
      using digit_char_not_sign [of n] by (subst (1 2) dec_digits.simps) simp
  next
    case False
    then show ?thesis
      using 1 dec_digits_nonempty [of "n div 10"]
      by (subst (1 2) dec_digits.simps) simp
  qed
qed

lemma zfill_dec_digits:
  "py_zfill 8 (dec_digits n) = replicate (8 - length (dec_digits n)) CHR ''0'' @ dec_digits n"
proof (cases "dec_digits n")
  case Nil
  then show ?thesis using dec_digits_nonempty by simp
next
  case (Cons c rest)
  then have "c \<noteq> CHR ''+'' \<and> c \<noteq> CHR ''-''"
    using hd_dec_digits_not_sign [of n] by simp
  then show ?thesis
    by (simp add: py_zfill_def Cons)
qed

lemma create_checksum_compute: "create_checksum seq data = compute data"
  by (simp add: create_checksum_def compute_def Let_def py_str_def bit_sum_set_bits
      zfill_dec_digits)

text \<open>
  C2. For every payload \<open>p\<close> and any two sequence numbers \<open>s\<close> and \<open>s'\<close>,
  \<open>create_checksum s p\<close> equals \<open>create_checksum s' p\<close>, and both equal the reference
  digest of the specification: the number of set bits over all bytes of \<open>p\<close>, in
  decimal, padded with zeros on the left to 8 characters. The function reads nothing
  but its arguments.
\<close>

theorem create_checksum_is_reference_digest:
  "create_checksum s p = create_checksum s' p
   \<and> create_checksum s p = compute p
   \<and> create_checksum s' p = compute p"
  by (simp add: create_checksum_compute)

text \<open>
  C8. For every payload \<open>p\<close> and any sequence number \<open>s\<close>, the digest that
  \<open>create_checksum\<close> produces for \<open>p\<close> verifies against \<open>p\<close>:
  \<open>verify_checksum\<close> recomputes the digest and compares for equality.
\<close>

theorem verify_accepts_created_checksum:
  "verify_checksum s (create_checksum s p) p"
  by (simp add: verify_checksum_def create_checksum_def)

lemma dec_digits_100000000: "dec_digits 100000000 = ''100000000''"
  by (simp add: dec_digits.simps digit_char_def)

lemma set_bits_FF: "set_bits (CHR 0xFF) = 8"
  by (simp add: set_bits_def)

lemma bit_sum_replicate: "bit_sum (replicate n c) = n * set_bits c"
  by (simp add: bit_sum_set_bits sum_list_replicate)

lemma set_bits_le: "set_bits c \<le> 8"
  by (simp add: set_bits_def of_bool_def)

lemma bit_sum_le: "bit_sum data \<le> 8 * length data"
proof (induction data)
  case Nil
  then show ?case by (simp add: bit_sum_set_bits)
next
  case (Cons c data)
  then show ?case
    using set_bits_le [of c] by (simp add: bit_sum_set_bits)
qed

lemma length_dec_digits: "n < 10 ^ k \<Longrightarrow> 0 < k \<Longrightarrow> length (dec_digits n) \<le> k"
proof (induction n arbitrary: k rule: dec_digits.induct)
  case (1 n)
  show ?case
  proof (cases "n < 10")
    case True
    then show ?thesis
      using 1(3) by (subst dec_digits.simps) simp
  next
    case False
    obtain j where k: "k = Suc j"
      using 1(3) by (cases k) auto
    have "j \<noteq> 0"
      using False 1(2) k by (cases j) auto
    moreover have "n div 10 < 10 ^ j"
      using 1(2) k by (simp add: less_mult_imp_div_less mult.commute)
    ultimately have "length (dec_digits (n div 10)) \<le> j"
      using 1(1) [of j] False by simp
    then show ?thesis
      using False k by (subst dec_digits.simps) simp
  qed
qed

lemma length_create_checksum_ge: "8 \<le> length (create_checksum seq data)"
  by (simp add: create_checksum_compute compute_def Let_def)

lemma length_create_checksum:
  "length data < 12500000 \<Longrightarrow> length (create_checksum seq data) = 8"
proof -
  assume "length data < 12500000"
  then have "bit_sum data < 10 ^ 8"
    using bit_sum_le [of data] by simp
  then have "length (dec_digits (bit_sum data)) \<le> 8"
    by (rule length_dec_digits) simp
  then show ?thesis
    by (simp add: create_checksum_compute compute_def Let_def bit_sum_set_bits)
qed

text \<open>\<^verbatim>\<open>zfill(8)\<close> pads and never truncates, so the bound of
  \<open>length_create_checksum\<close> is sharp: 12500000 bytes \<^verbatim>\<open>0xFF\<close> have \<open>10\<^sup>8\<close> set
  bits and a digest of 9 bytes. No datagram carries such a payload.\<close>

lemma create_checksum_nine_bytes:
  "length (create_checksum s (replicate 12500000 (CHR 0xFF))) = 9"
proof -
  have "bit_sum (replicate 12500000 (CHR 0xFF)) = 100000000"
    by (simp only: bit_sum_replicate set_bits_FF)
  then show ?thesis
    by (simp add: create_checksum_def py_str_def py_zfill_def dec_digits_100000000)
qed

text \<open>
  C9. For every payload, the digest produced by \<open>create_checksum\<close> is exactly 8 bytes
  long, a fixed-width field on the wire. A payload is what a packet carries: the
  programs build payloads of a few dozen bytes (\<^verbatim>\<open>Message-i-Seq-s\<close>,
  \<^verbatim>\<open>DONE\<close>, \<^verbatim>\<open>ACK-s\<close>), and a datagram holds at most 65507 bytes. The digest has
  exactly 8 bytes for every payload of fewer than 12500000 bytes, which covers all of
  them.
\<close>

theorem checksum_is_eight_bytes:
  "length p < 12500000 \<Longrightarrow> length (create_checksum s p) = 8"
  by (rule length_create_checksum)

theorem checksum_is_eight_bytes_witness:
  "length ''DONE'' < 12500000
   \<and> create_checksum 20 ''DONE'' = ''00000014''
   \<and> length (create_checksum 20 ''DONE'') = 8"
proof -
  have short: "length ''DONE'' < 12500000"
    by simp
  have "create_checksum 20 ''DONE'' = ''00000014''"
    by code_simp
  then show ?thesis
    using checksum_is_eight_bytes [OF short, of 20] by simp
qed

section \<open>Properties of the receiver\<close>

lemma mod_256_successor: "(e + 1) mod 256 \<noteq> (e :: int)"
proof
  assume h: "(e + 1) mod 256 = e"
  have "0 \<le> (e + 1) mod 256" "(e + 1) mod 256 < 256"
    by simp_all
  with h have b: "0 \<le> e" "e < 256"
    by simp_all
  show False
  proof (cases "e = 255")
    case True
    with h show False by simp
  next
    case False
    with b have "(e + 1) mod 256 = e + 1"
      by (simp add: mod_pos_pos_trivial)
    with h show False by simp
  qed
qed

text \<open>
  C1. For every packet that the receiver gets and whose checksum verifies against its
  payload, the receiver sends exactly one acknowledgement, to the sender of the
  packet, carrying the sequence number of the received packet (not \<open>expected_seq\<close>);
  \<open>expected_seq\<close> becomes \<open>(expected_seq + 1) mod 256\<close> if and only if the received
  sequence number equals \<open>expected_seq\<close>, and is unchanged otherwise, while the
  acknowledgement is sent all the same.
\<close>

theorem receiver_acks_valid_packet:
  assumes "ex pkt = Some (seq, checksum, dataRcvd)"
    and "verify_checksum seq checksum dataRcvd"
  shows "fst (snd (server_body mk ex expected_seq (pkt, a))) =
           [(mk seq (create_checksum seq (''ACK-'' @ py_str seq)) (''ACK-'' @ py_str seq), a)]
       \<and> (fst (server_body mk ex expected_seq (pkt, a)) = (expected_seq + 1) mod 256
            \<longleftrightarrow> seq = expected_seq)
       \<and> fst (server_body mk ex expected_seq (pkt, a)) =
           (if seq = expected_seq then (expected_seq + 1) mod 256 else expected_seq)"
  using assms mod_256_successor [of expected_seq]
  by (auto simp: server_body_def Let_def)

theorem receiver_acks_valid_packet_witness:
  "packet_extract (packet_make 7 ''00000021'' ''hello'') = Some (7, ''00000021'', ''hello'')
   \<and> verify_checksum 7 ''00000021'' ''hello''
   \<and> fst (snd (server_body packet_make packet_extract 3
                 (packet_make 7 ''00000021'' ''hello'', (''127.0.0.1'', 50000)))) =
       [(packet_make 7 ''00000018'' ''ACK-7'', (''127.0.0.1'', 50000))]
   \<and> fst (server_body packet_make packet_extract 3
            (packet_make 7 ''00000021'' ''hello'', (''127.0.0.1'', 50000))) = 3
   \<and> fst (server_body packet_make packet_extract 7
            (packet_make 7 ''00000021'' ''hello'', (''127.0.0.1'', 50000))) = 8"
proof -
  have ex: "packet_extract (packet_make 7 ''00000021'' ''hello'') = Some (7, ''00000021'', ''hello'')"
    by code_simp
  have ok: "verify_checksum 7 ''00000021'' ''hello''"
    by code_simp
  have ack: "py_str 7 = ''7''" "create_checksum 7 ''ACK-7'' = ''00000018''"
    by code_simp+
  show ?thesis
    using receiver_acks_valid_packet [where ex = packet_extract and mk = packet_make
        and pkt = "packet_make 7 ''00000021'' ''hello''" and seq = 7 and checksum = "''00000021''"
        and dataRcvd = "''hello''" and expected_seq = 3 and a = "(''127.0.0.1'', 50000)"]
      receiver_acks_valid_packet [where ex = packet_extract and mk = packet_make
        and pkt = "packet_make 7 ''00000021'' ''hello''" and seq = 7 and checksum = "''00000021''"
        and dataRcvd = "''hello''" and expected_seq = 7 and a = "(''127.0.0.1'', 50000)"]
    by (simp add: ex ok ack)
qed

text \<open>
  C6. When the receiver gets a packet whose checksum does not verify against its
  payload, it sends no acknowledgement, \<open>expected_seq\<close> is unchanged, and the loop goes
  on to wait for the next packet.
\<close>

theorem receiver_drops_corrupt_packet:
  assumes "ex pkt = Some (seq, checksum, dataRcvd)"
    and "\<not> verify_checksum seq checksum dataRcvd"
  shows "server_body mk ex expected_seq (pkt, a) = (expected_seq, [], Continue)
       \<and> server_loop mk ex expected_seq out ((pkt, a) # rest) =
           server_loop mk ex expected_seq out rest"
  using assms by (simp add: server_body_def)

theorem receiver_drops_corrupt_packet_witness:
  "packet_extract (packet_make 0 ''00000020'' ''hello'') = Some (0, ''00000020'', ''hello'')
   \<and> \<not> verify_checksum 0 ''00000020'' ''hello''
   \<and> server_body packet_make packet_extract 0
        (packet_make 0 ''00000020'' ''hello'', (''127.0.0.1'', 50000)) = (0, [], Continue)
   \<and> server_main packet_make packet_extract
        [(packet_make 0 ''00000020'' ''hello'', (''127.0.0.1'', 50000))] =
       \<lparr>final_expected = 0, sent = [], ending = Waiting\<rparr>"
proof -
  have ex: "packet_extract (packet_make 0 ''00000020'' ''hello'') = Some (0, ''00000020'', ''hello'')"
    by code_simp
  have bad: "\<not> verify_checksum 0 ''00000020'' ''hello''"
    by code_simp
  show ?thesis
    using receiver_drops_corrupt_packet [where ex = packet_extract and mk = packet_make
        and pkt = "packet_make 0 ''00000020'' ''hello''" and seq = 0 and checksum = "''00000020''"
        and dataRcvd = "''hello''" and expected_seq = 0 and a = "(''127.0.0.1'', 50000)"
        and out = "[]" and rest = "[]"]
    by (simp add: ex bad server_main_def)
qed

section \<open>Properties of the sender\<close>

subsection \<open>The two wait loops\<close>

lemma main_wait_Datagram:
  "main_wait ex s (Datagram r # ps) =
     (if r \<noteq> [] \<and> (\<exists>c d. ex r = Some (s, c, d) \<and> verify_checksum s c d \<and> utf8_valid d)
      then Some r else main_wait ex s ps)"
  by (auto split: option.splits)

lemma done_wait_Datagram:
  "done_wait ex s (Datagram r # ps) =
     (if r \<noteq> [] \<and> acks ex s r then Some r else done_wait ex s ps)"
  by (auto simp: acks_def split: option.splits)

lemma main_wait_acks: "main_wait ex s ps = Some r \<Longrightarrow> acks ex s r"
proof (induction ps)
  case Nil
  then show ?case by simp
next
  case (Cons p ps)
  then show ?case
    by (cases p)
       (auto simp: main_wait_Datagram acks_def simp del: main_wait.simps(4) split: if_splits)
qed

lemma done_wait_acks: "done_wait ex s ps = Some r \<Longrightarrow> acks ex s r"
proof (induction ps)
  case Nil
  then show ?case by simp
next
  case (Cons p ps)
  then show ?case
    by (cases p) (auto simp: done_wait_Datagram simp del: done_wait.simps(4) split: if_splits)
qed

lemma done_wait_accepts:
  "r \<noteq> [] \<Longrightarrow> acks ex s r \<Longrightarrow> done_wait ex s (Datagram r # ps) = Some r"
  by (auto simp: acks_def split: option.splits)

lemma main_wait_accepts:
  "r \<noteq> [] \<Longrightarrow> ex r = Some (s, c, d) \<Longrightarrow> verify_checksum s c d \<Longrightarrow> utf8_valid d \<Longrightarrow>
   main_wait ex s (Datagram r # ps) = Some r"
  by simp

lemma main_wait_rejects_undecodable_text:
  "ex r = Some (s, c, d) \<Longrightarrow> \<not> utf8_valid d \<Longrightarrow>
   main_wait ex s' (Datagram r # ps) = main_wait ex s' ps"
  by simp

text \<open>
  C10. The sender accepts a reply as the acknowledgement of the outstanding packet
  on the checksum and the sequence field alone, whatever the payload. The wait of
  the \<^verbatim>\<open>finally\<close> block does so (\<open>done_wait_accepts\<close>). The wait of the message
  loop decodes the payload as UTF-8 for its log line before it compares the sequence
  numbers; for a payload that is not UTF-8 the decoding raises, the handler of the
  loop catches the exception, and the reply is discarded. The reply below carries
  sequence number 0, the payload \<^verbatim>\<open>0xFF\<close> and the matching digest: it
  acknowledges packet 0, the \<^verbatim>\<open>finally\<close> block accepts it, the message loop
  does not.
\<close>

theorem main_wait_discards_valid_ack:
  "acks packet_extract 0 (packet_make 0 ''00000008'' [CHR 0xFF])
   \<and> done_wait packet_extract 0 [Datagram (packet_make 0 ''00000008'' [CHR 0xFF])] =
       Some (packet_make 0 ''00000008'' [CHR 0xFF])
   \<and> main_wait packet_extract 0 [Datagram (packet_make 0 ''00000008'' [CHR 0xFF])] = None"
  by code_simp

subsection \<open>Packets that do not decode\<close>

text \<open>
  C4 as stated fails in the receiver: the exception of \<^verbatim>\<open>packet.extract\<close> is
  caught outside the \<^verbatim>\<open>while\<close> loop, so the receiver stops serving. Here a
  4-byte blob arrives before a well-formed packet with sequence number 0; the
  packet is never acknowledged.
\<close>

theorem receiver_stops_on_undecodable_blob:
  "packet_extract ''junk'' = None
   \<and> server_main packet_make packet_extract
        [(''junk'', (''127.0.0.1'', 50000)),
         (packet_make 0 ''00000021'' ''hello'', (''127.0.0.1'', 50000))] =
       \<lparr>final_expected = 0, sent = [], ending = Failed\<rparr>
   \<and> server_main packet_make packet_extract
        [(packet_make 0 ''00000021'' ''hello'', (''127.0.0.1'', 50000))] =
       \<lparr>final_expected = 1,
        sent = [(packet_make 0 ''00000015'' ''ACK-0'', (''127.0.0.1'', 50000))],
        ending = Waiting\<rparr>"
proof -
  have junk: "packet_extract ''junk'' = None"
    by code_simp
  have hello:
    "packet_extract (packet_make 0 ''00000021'' ''hello'') = Some (0, ''00000021'', ''hello'')"
    by code_simp
  have ok: "verify_checksum 0 ''00000021'' ''hello''"
    by code_simp
  have ack: "py_str 0 = ''0''" "create_checksum 0 ''ACK-0'' = ''00000015''"
    by code_simp+
  have "server_body packet_make packet_extract 0 (''junk'', (''127.0.0.1'', 50000)) =
        (0, [], Raise)"
    by (simp add: server_body_def junk)
  moreover have "server_body packet_make packet_extract 0
       (packet_make 0 ''00000021'' ''hello'', (''127.0.0.1'', 50000)) =
     (1, [(packet_make 0 ''00000015'' ''ACK-0'', (''127.0.0.1'', 50000))], Continue)"
    by (simp add: server_body_def Let_def hello ok ack)
  ultimately show ?thesis
    by (simp add: server_main_def junk)
qed

text \<open>
  C4, amended. A packet that \<^verbatim>\<open>packet.extract\<close> cannot decode is a drop for the
  sender: both wait loops go on polling as if nothing had arrived. In the receiver
  the exception does not leave \<^verbatim>\<open>main\<close>, nothing is sent and \<open>expected_seq\<close> is
  unchanged, but the receive loop ends and nothing that arrives later is served.
\<close>

theorem undecodable_packet_handling:
  assumes "ex pkt = None"
  shows "main_wait ex s (Datagram pkt # ps) = main_wait ex s (BlockingIOError # ps)
       \<and> done_wait ex s (Datagram pkt # ps) = done_wait ex s (BlockingIOError # ps)
       \<and> server_body mk ex expected_seq (pkt, a) = (expected_seq, [], Raise)
       \<and> server_loop mk ex expected_seq out ((pkt, a) # rest) =
           \<lparr>final_expected = expected_seq, sent = out, ending = Failed\<rparr>"
  using assms by (simp add: server_body_def)

theorem undecodable_packet_handling_witness:
  "packet_extract ''junk'' = None
   \<and> main_wait packet_extract 0 [Datagram ''junk''] = None
   \<and> done_wait packet_extract 0 [Datagram ''junk''] = None
   \<and> server_loop packet_make packet_extract 5 [] [(''junk'', (''127.0.0.1'', 50000))] =
       \<lparr>final_expected = 5, sent = [], ending = Failed\<rparr>"
proof -
  have none: "packet_extract ''junk'' = None"
    by code_simp
  show ?thesis
    using undecodable_packet_handling [where ex = packet_extract and pkt = "''junk''"
        and mk = packet_make and s = 0 and ps = "[]" and expected_seq = 5
        and a = "(''127.0.0.1'', 50000)" and out = "[]" and rest = "[]"]
    by (simp add: none)
qed

subsection \<open>The loops, one step at a time\<close>

lemma main_while_unfold:
  "main_while ex t p r st =
     (if r < max_retries then
        (case main_wait ex (cur_seq st) (next_polls (polls st)) of
           Some rcvpkt \<Rightarrow> (True, accepted rcvpkt (attempted t p st))
         | None \<Rightarrow> main_while ex t p (Suc r) (backed_off (Suc r) (attempted t p st)))
      else (False, st))"
  by (subst main_while.simps)
     (simp add: attempted_def backed_off_def accepted_def Let_def split: option.splits)

lemma done_while_unfold:
  "done_while ex t p r st =
     (if r < max_retries then
        (case done_wait ex (cur_seq st) (next_polls (polls st)) of
           Some rcvpkt \<Rightarrow> (True, accepted rcvpkt (attempted t p st))
         | None \<Rightarrow> done_while ex t p (Suc r) (attempted t p st))
      else (False, st))"
  by (subst done_while.simps)
     (simp add: attempted_def accepted_def Let_def split: option.splits)

text \<open>The retry loop leaves from some state at its head in which the invariant
  holds: with the budget used up, or on a reply that the wait accepted.\<close>

lemma main_while_rule:
  assumes "main_while ex t p r st = (ack, st')"
    and "I r st"
    and "\<And>r st. r < max_retries \<Longrightarrow> I r st \<Longrightarrow>
           main_wait ex (cur_seq st) (next_polls (polls st)) = None \<Longrightarrow>
           I (Suc r) (backed_off (Suc r) (attempted t p st))"
  shows "\<exists>r0 st0. I r0 st0 \<and>
           (if ack
            then r0 < max_retries \<and>
                 (\<exists>rcvpkt. main_wait ex (cur_seq st0) (next_polls (polls st0)) = Some rcvpkt
                    \<and> st' = accepted rcvpkt (attempted t p st0))
            else \<not> r0 < max_retries \<and> st' = st0)"
  using assms(1,2)
proof (induction "max_retries - r" arbitrary: r st)
  case 0
  then have "\<not> r < max_retries" by simp
  then have "main_while ex t p r st = (False, st)"
    by (subst main_while_unfold) simp
  with 0 show ?case by auto
next
  case (Suc n)
  then have less: "r < max_retries" by simp
  show ?case
  proof (cases "main_wait ex (cur_seq st) (next_polls (polls st))")
    case None
    have "main_while ex t p (Suc r) (backed_off (Suc r) (attempted t p st)) = (ack, st')"
      using Suc.prems(1) less None by (subst (asm) main_while_unfold) simp
    moreover have "I (Suc r) (backed_off (Suc r) (attempted t p st))"
      using assms(3) less Suc.prems(2) None by blast
    moreover have "n = max_retries - Suc r"
      using Suc.hyps(2) by simp
    ultimately show ?thesis
      using Suc.hyps(1) by blast
  next
    case (Some rcvpkt)
    have "ack \<and> st' = accepted rcvpkt (attempted t p st)"
      using Suc.prems(1) less Some by (subst (asm) main_while_unfold) auto
    then show ?thesis
      using less Some Suc.prems(2) by auto
  qed
qed

lemma done_while_rule:
  assumes "done_while ex t p r st = (ack, st')"
    and "I r st"
    and "\<And>r st. r < max_retries \<Longrightarrow> I r st \<Longrightarrow>
           done_wait ex (cur_seq st) (next_polls (polls st)) = None \<Longrightarrow>
           I (Suc r) (attempted t p st)"
  shows "\<exists>r0 st0. I r0 st0 \<and>
           (if ack
            then r0 < max_retries \<and>
                 (\<exists>rcvpkt. done_wait ex (cur_seq st0) (next_polls (polls st0)) = Some rcvpkt
                    \<and> st' = accepted rcvpkt (attempted t p st0))
            else \<not> r0 < max_retries \<and> st' = st0)"
  using assms(1,2)
proof (induction "max_retries - r" arbitrary: r st)
  case 0
  then have "\<not> r < max_retries" by simp
  then have "done_while ex t p r st = (False, st)"
    by (subst done_while_unfold) simp
  with 0 show ?case by auto
next
  case (Suc n)
  then have less: "r < max_retries" by simp
  show ?case
  proof (cases "done_wait ex (cur_seq st) (next_polls (polls st))")
    case None
    have "done_while ex t p (Suc r) (attempted t p st) = (ack, st')"
      using Suc.prems(1) less None by (subst (asm) done_while_unfold) simp
    moreover have "I (Suc r) (attempted t p st)"
      using assms(3) less Suc.prems(2) None by blast
    moreover have "n = max_retries - Suc r"
      using Suc.hyps(2) by simp
    ultimately show ?thesis
      using Suc.hyps(1) by blast
  next
    case (Some rcvpkt)
    have "ack \<and> st' = accepted rcvpkt (attempted t p st)"
      using Suc.prems(1) less Some by (subst (asm) done_while_unfold) auto
    then show ?thesis
      using less Some Suc.prems(2) by auto
  qed
qed


lemma main_for_Cons:
  "main_while ex (message m (cur_seq st)) (packet_of mk (cur_seq st) (message m (cur_seq st))) 0 st
     = (ack, st') \<Longrightarrow>
   main_for mk ex (m # ms) st =
     (if ack then main_for mk ex ms (st'\<lparr>cur_seq := (cur_seq st' + 1) mod 256\<rparr>) else st')"
  by (simp add: Let_def message_def packet_of_def)

lemma main_for_rule:
  assumes "J st"
    and "\<And>m st ack st'. J st \<Longrightarrow>
           main_while ex (message m (cur_seq st))
             (packet_of mk (cur_seq st) (message m (cur_seq st))) 0 st = (ack, st') \<Longrightarrow>
           (if ack then J (st'\<lparr>cur_seq := (cur_seq st' + 1) mod 256\<rparr>) else K st')"
    and "\<And>st. J st \<Longrightarrow> K st"
  shows "K (main_for mk ex ms st)"
  using assms(1)
proof (induction ms arbitrary: st)
  case Nil
  then show ?case using assms(3) by simp
next
  case (Cons m ms)
  obtain ack st' where run:
    "main_while ex (message m (cur_seq st))
       (packet_of mk (cur_seq st) (message m (cur_seq st))) 0 st = (ack, st')"
    by (cases "main_while ex (message m (cur_seq st))
       (packet_of mk (cur_seq st) (message m (cur_seq st))) 0 st") blast
  show ?case
  proof (cases ack)
    case True
    then have "J (st'\<lparr>cur_seq := (cur_seq st' + 1) mod 256\<rparr>)"
      using assms(2) [OF Cons.prems run] by simp
    then show ?thesis
      using Cons.IH main_for_Cons [OF run] True by simp
  next
    case False
    then show ?thesis
      using assms(2) [OF Cons.prems run] main_for_Cons [OF run] by simp
  qed
qed

lemma main_finally_unfold:
  "main_finally mk ex st = snd (done_while ex ''DONE'' (packet_of mk (cur_seq st) ''DONE'') 0 st)"
  by (simp add: main_finally_def packet_of_def Let_def)

lemma trace_attempted [simp]:
  "trace (attempted t p st) = trace st @ [Send (cur_seq st) t p, Start (mytimer st)]"
  by (simp add: attempted_def)

lemma trace_backed_off [simp]: "trace (backed_off r st) = trace st"
  by (simp add: backed_off_def)

lemma trace_accepted [simp]: "trace (accepted rcvpkt st) = trace st @ [Accept rcvpkt]"
  by (simp add: accepted_def)

lemma cur_seq_attempted [simp]: "cur_seq (attempted t p st) = cur_seq st"
  by (simp add: attempted_def)

lemma cur_seq_backed_off [simp]: "cur_seq (backed_off r st) = cur_seq st"
  by (simp add: backed_off_def)

lemma cur_seq_accepted [simp]: "cur_seq (accepted rcvpkt st) = cur_seq st"
  by (simp add: accepted_def)

lemma mytimer_attempted [simp]: "mytimer (attempted t p st) = mytimer st"
  by (simp add: attempted_def)

lemma mytimer_accepted [simp]: "mytimer (accepted rcvpkt st) = mytimer st"
  by (simp add: accepted_def)

lemma timeout_value_attempted [simp]: "timeout_value (attempted t p st) = timeout_value st"
  by (simp add: attempted_def)

lemma timeout_value_accepted [simp]: "timeout_value (accepted rcvpkt st) = timeout_value st"
  by (simp add: accepted_def)

lemma monitor_append:
  "monitor step s (xs @ ys) =
     (case monitor step s xs of None \<Rightarrow> None | Some s' \<Rightarrow> monitor step s' ys)"
  by (induction xs arbitrary: s) (auto split: option.splits)

subsection \<open>One packet in flight\<close>

lemma flight_step_Send:
  "may_send f s \<Longrightarrow> \<exists>a. flight_step ex f (Send s t p) = Some (Outstanding s a)"
  by (cases f) auto

lemma main_while_flight:
  assumes "main_while ex t p r st = (ack, st')"
    and "monitor (flight_step ex) Idle (trace st) = Some f"
    and "may_send f (cur_seq st)"
  shows "\<exists>f'. monitor (flight_step ex) Idle (trace st') = Some f'
            \<and> cur_seq st' = cur_seq st \<and> may_send f' (cur_seq st)
            \<and> (ack \<longrightarrow> f' = Outstanding (cur_seq st) True)"
proof -
  define I where "I = (\<lambda>(r :: nat) (st0 :: client). cur_seq st0 = cur_seq st
      \<and> (\<exists>f. monitor (flight_step ex) Idle (trace st0) = Some f \<and> may_send f (cur_seq st)))"
  have attempt: "\<exists>a. monitor (flight_step ex) Idle (trace (attempted t p st0)) =
                       Some (Outstanding (cur_seq st) a)" if inv: "I r0 st0" for r0 st0
  proof -
    obtain f0 where f0: "monitor (flight_step ex) Idle (trace st0) = Some f0"
      "may_send f0 (cur_seq st)" "cur_seq st0 = cur_seq st"
      using inv unfolding I_def by blast
    obtain a where "flight_step ex f0 (Send (cur_seq st) t p) = Some (Outstanding (cur_seq st) a)"
      using flight_step_Send [OF f0(2)] by blast
    then show ?thesis
      using f0 by (simp add: monitor_append)
  qed
  have "I r st"
    using assms(2,3) by (auto simp: I_def)
  moreover have "I (Suc r0) (backed_off (Suc r0) (attempted t p st0))" if "I r0 st0" for r0 st0
    using attempt [OF that] that by (auto simp: I_def)
  ultimately obtain r0 st0 where exit: "I r0 st0"
    "if ack
     then r0 < max_retries \<and>
          (\<exists>rcvpkt. main_wait ex (cur_seq st0) (next_polls (polls st0)) = Some rcvpkt
             \<and> st' = accepted rcvpkt (attempted t p st0))
     else \<not> r0 < max_retries \<and> st' = st0"
    using main_while_rule [OF assms(1), of I] by blast
  show ?thesis
  proof (cases ack)
    case False
    then show ?thesis
      using exit by (auto simp: I_def)
  next
    case True
    then obtain rcvpkt where rcv:
      "main_wait ex (cur_seq st0) (next_polls (polls st0)) = Some rcvpkt"
      "st' = accepted rcvpkt (attempted t p st0)"
      using exit(2) by auto
    have seq0: "cur_seq st0 = cur_seq st"
      using exit(1) by (simp add: I_def)
    obtain a where "monitor (flight_step ex) Idle (trace (attempted t p st0)) =
                      Some (Outstanding (cur_seq st) a)"
      using attempt [OF exit(1)] by blast
    moreover have "acks ex (cur_seq st) rcvpkt"
      using main_wait_acks [OF rcv(1)] seq0 by simp
    ultimately have "monitor (flight_step ex) Idle (trace st') = Some (Outstanding (cur_seq st) True)"
      unfolding rcv(2) trace_accepted by (simp add: monitor_append del: trace_attempted)
    then show ?thesis
      using rcv(2) seq0 by (simp del: trace_attempted)
  qed
qed

lemma done_while_flight:
  assumes "done_while ex t p r st = (ack, st')"
    and "monitor (flight_step ex) Idle (trace st) = Some f"
    and "may_send f (cur_seq st)"
  shows "\<exists>f'. monitor (flight_step ex) Idle (trace st') = Some f'"
proof -
  define I where "I = (\<lambda>(r :: nat) (st0 :: client). cur_seq st0 = cur_seq st
      \<and> (\<exists>f. monitor (flight_step ex) Idle (trace st0) = Some f \<and> may_send f (cur_seq st)))"
  have attempt: "\<exists>a. monitor (flight_step ex) Idle (trace (attempted t p st0)) =
                       Some (Outstanding (cur_seq st) a)" if inv: "I r0 st0" for r0 st0
  proof -
    obtain f0 where f0: "monitor (flight_step ex) Idle (trace st0) = Some f0"
      "may_send f0 (cur_seq st)" "cur_seq st0 = cur_seq st"
      using inv unfolding I_def by blast
    obtain a where "flight_step ex f0 (Send (cur_seq st) t p) = Some (Outstanding (cur_seq st) a)"
      using flight_step_Send [OF f0(2)] by blast
    then show ?thesis
      using f0 by (simp add: monitor_append)
  qed
  have "I r st"
    using assms(2,3) by (auto simp: I_def)
  moreover have "I (Suc r0) (attempted t p st0)" if "I r0 st0" for r0 st0
    using attempt [OF that] that by (auto simp: I_def)
  ultimately obtain r0 st0 where exit: "I r0 st0"
    "if ack
     then r0 < max_retries \<and>
          (\<exists>rcvpkt. done_wait ex (cur_seq st0) (next_polls (polls st0)) = Some rcvpkt
             \<and> st' = accepted rcvpkt (attempted t p st0))
     else \<not> r0 < max_retries \<and> st' = st0"
    using done_while_rule [OF assms(1), of I] by blast
  show ?thesis
  proof (cases ack)
    case False
    then show ?thesis
      using exit by (auto simp: I_def)
  next
    case True
    then obtain rcvpkt where rcv: "st' = accepted rcvpkt (attempted t p st0)"
      using exit(2) by auto
    obtain a where "monitor (flight_step ex) Idle (trace (attempted t p st0)) =
                      Some (Outstanding (cur_seq st) a)"
      using attempt [OF exit(1)] by blast
    then show ?thesis
      unfolding rcv trace_accepted by (simp add: monitor_append del: trace_attempted)
  qed
qed

lemma main_for_flight:
  assumes "monitor (flight_step ex) Idle (trace st) = Some f"
    and "may_send f (cur_seq st)"
  shows "\<exists>f'. monitor (flight_step ex) Idle (trace (main_for mk ex ms st)) = Some f'
            \<and> may_send f' (cur_seq (main_for mk ex ms st))"
proof -
  define J where "J = (\<lambda>st :: client. \<exists>f. monitor (flight_step ex) Idle (trace st) = Some f
                          \<and> may_send f (cur_seq st))"
  have "J (main_for mk ex ms st)"
  proof (rule main_for_rule [where J = J and K = J])
    show "J st" using assms by (auto simp: J_def)
  next
    fix m st0 ack st1
    assume "J st0" and run: "main_while ex (message m (cur_seq st0))
        (packet_of mk (cur_seq st0) (message m (cur_seq st0))) 0 st0 = (ack, st1)"
    then obtain f0 where "monitor (flight_step ex) Idle (trace st0) = Some f0"
      "may_send f0 (cur_seq st0)"
      by (auto simp: J_def)
    from main_while_flight [OF run this]
    show "if ack then J (st1\<lparr>cur_seq := (cur_seq st1 + 1) mod 256\<rparr>) else J st1"
      by (auto simp: J_def)
  qed
  then show ?thesis by (simp add: J_def)
qed

text \<open>The monitor is not satisfied by every trace: it refuses a trace in which the
  sequence number advances without an accepted acknowledgement.\<close>

lemma one_in_flight_refuses:
  "\<not> one_in_flight ex [Send 0 t p, Start d, Send 1 t' p', Start d']"
  by (simp add: one_in_flight_def)

text \<open>
  C5. The sender never transmits a packet with sequence number \<open>(n + 1) mod 256\<close>
  before it has received a reply that passes checksum verification and whose
  sequence number is \<open>n\<close>; at most one unacknowledged packet is outstanding. In
  every run, for every codec and whatever arrives: each transmission either repeats
  the sequence number of the transmission before it (a retransmission, or the
  termination message after the transfer was aborted), or carries its successor
  modulo 256 after a reply acknowledging the earlier number was accepted.
\<close>

theorem sender_one_packet_in_flight:
  "one_in_flight ex (trace (client_main mk ex input))"
proof -
  have "monitor (flight_step ex) Idle (trace (client_init input)) = Some Idle"
    by (simp add: client_init_def)
  then obtain f where f: "monitor (flight_step ex) Idle (trace (main_try mk ex input)) = Some f"
    "may_send f (cur_seq (main_try mk ex input))"
    unfolding main_try_def using main_for_flight [of ex "client_init input" Idle mk "[0..<20]"]
    by auto
  obtain ack st' where run:
    "done_while ex ''DONE'' (packet_of mk (cur_seq (main_try mk ex input)) ''DONE'') 0
       (main_try mk ex input) = (ack, st')"
    by (cases "done_while ex ''DONE'' (packet_of mk (cur_seq (main_try mk ex input)) ''DONE'') 0
       (main_try mk ex input)") blast
  from done_while_flight [OF run f] show ?thesis
    by (simp add: one_in_flight_def client_main_def main_finally_unfold run)
qed

subsection \<open>The timeout\<close>

lemma durations_append: "durations (xs @ ys) = durations xs @ durations ys"
  by (induction xs rule: durations.induct) auto

lemma done_sends_append: "done_sends (xs @ ys) = done_sends xs @ done_sends ys"
  by (induction xs rule: done_sends.induct) auto

lemma timeout_values_backoff:
  "x \<in> timeout_values \<Longrightarrow> min (x * (3 / 2)) 5 \<in> timeout_values \<and> x \<le> min (x * (3 / 2)) 5"
  by (auto simp: timeout_values_def)

lemma timer_ok_attempted: "timer_ok st \<Longrightarrow> timer_ok (attempted t p st)"
  by (auto simp: timer_ok_def durations_append sorted_append)

lemma timer_ok_backed_off: "timer_ok st \<Longrightarrow> timer_ok (backed_off r st)"
  using timeout_values_backoff [of "mytimer st"]
  by (auto simp: timer_ok_def backed_off_def)

lemma timer_ok_accepted: "timer_ok st \<Longrightarrow> timer_ok (accepted rcvpkt st)"
  by (auto simp: timer_ok_def durations_append)

lemma timer_ok_cur_seq: "timer_ok st \<Longrightarrow> timer_ok (st\<lparr>cur_seq := s\<rparr>)"
  by (simp add: timer_ok_def)

lemma main_while_timer_ok:
  assumes "main_while ex t p r st = (ack, st')" and "timer_ok st"
  shows "timer_ok st'"
proof -
  have "\<exists>r0 st0. timer_ok st0 \<and>
           (if ack
            then r0 < max_retries \<and>
                 (\<exists>rcvpkt. main_wait ex (cur_seq st0) (next_polls (polls st0)) = Some rcvpkt
                    \<and> st' = accepted rcvpkt (attempted t p st0))
            else \<not> r0 < max_retries \<and> st' = st0)"
    using assms(2) timer_ok_attempted timer_ok_backed_off
    by (intro main_while_rule [OF assms(1), of "\<lambda>r. timer_ok"]) auto
  then show ?thesis
    using timer_ok_attempted timer_ok_accepted by (auto split: if_splits)
qed

lemma done_while_timer_ok:
  assumes "done_while ex t p r st = (ack, st')" and "timer_ok st"
  shows "timer_ok st'"
proof -
  have "\<exists>r0 st0. timer_ok st0 \<and>
           (if ack
            then r0 < max_retries \<and>
                 (\<exists>rcvpkt. done_wait ex (cur_seq st0) (next_polls (polls st0)) = Some rcvpkt
                    \<and> st' = accepted rcvpkt (attempted t p st0))
            else \<not> r0 < max_retries \<and> st' = st0)"
    using assms(2) timer_ok_attempted
    by (intro done_while_rule [OF assms(1), of "\<lambda>r. timer_ok"]) auto
  then show ?thesis
    using timer_ok_attempted timer_ok_accepted by (auto split: if_splits)
qed

lemma main_for_timer_ok: "timer_ok st \<Longrightarrow> timer_ok (main_for mk ex ms st)"
proof (rule main_for_rule [where J = timer_ok and K = timer_ok])
  fix m st0 ack st1
  assume "timer_ok st0" and "main_while ex (message m (cur_seq st0))
      (packet_of mk (cur_seq st0) (message m (cur_seq st0))) 0 st0 = (ack, st1)"
  then have "timer_ok st1"
    using main_while_timer_ok by blast
  then show "if ack then timer_ok (st1\<lparr>cur_seq := (cur_seq st1 + 1) mod 256\<rparr>) else timer_ok st1"
    by (simp add: timer_ok_cur_seq)
qed auto

lemma client_main_timer_ok: "timer_ok (client_main mk ex input)"
proof -
  have "timer_ok (client_init input)"
    by (simp add: timer_ok_def client_init_def timeout_values_def)
  then have "timer_ok (main_try mk ex input)"
    unfolding main_try_def by (rule main_for_timer_ok)
  then show ?thesis
    unfolding client_main_def main_finally_unfold
    using done_while_timer_ok [of ex "''DONE''" _ 0 "main_try mk ex input"]
    by (metis prod.collapse)
qed

lemma message_not_DONE: "message m s \<noteq> ''DONE''"
  by (simp add: message_def)

lemma policy_attempted:
  assumes "policy_at r st" and "t \<noteq> ''DONE''"
  shows "monitor (timeout_step (\<lambda>d. d)) (0, 1, False) (trace (attempted t p st)) =
           Some (Suc r, mytimer st, False)"
proof -
  obtain d where d:
    "monitor (timeout_step (\<lambda>d. d)) (0, 1, False) (trace st) = Some (r, d, False)"
    "mytimer st = (if r < 2 then d else min (d * (3 / 2)) 5)"
    using assms(1) unfolding policy_at_def by blast
  have "r = 0 \<or> r = 1 \<or> 2 \<le> r" by arith
  then show ?thesis
    using d assms(2) by (auto simp: monitor_append)
qed

lemma attempt_floor_next:
  assumes "d \<in> timeout_values" and "attempt_floor r \<le> d"
  shows "(if r < 2 then d else min (d * (3 / 2)) 5) \<in> timeout_values
       \<and> attempt_floor (Suc r) \<le> (if r < 2 then d else min (d * (3 / 2)) 5)"
proof -
  have r: "r = 0 \<or> r = 1 \<or> r = 2 \<or> r = 3 \<or> r = 4 \<or> r = 5 \<or> 6 \<le> r"
    by arith
  have d: "d = 1 \<or> d = 3 / 2 \<or> d = 9 / 4 \<or> d = 27 / 8 \<or> d = 5"
    using assms(1) by (simp add: timeout_values_def)
  show ?thesis
    using r d assms(2) by (auto simp: attempt_floor_def timeout_values_def)
qed

lemma policy_retry:
  assumes "policy_at r st" and "t \<noteq> ''DONE''"
  shows "policy_at (Suc r) (backed_off (Suc r) (attempted t p st))"
proof -
  obtain d where d: "timeout_value st = mytimer st"
    "mytimer st = (if r < 2 then d else min (d * (3 / 2)) 5)"
    "d \<in> timeout_values" "attempt_floor r \<le> d"
    using assms(1) unfolding policy_at_def by blast
  have next_d: "mytimer st \<in> timeout_values" "attempt_floor (Suc r) \<le> mytimer st"
    using attempt_floor_next [OF d(3,4)] d(2) by simp_all
  show ?thesis
    using policy_attempted [OF assms, of p] d(1) next_d
    by (auto simp: policy_at_def backed_off_def)
qed

lemma policy_at_ready: "policy_at 0 st \<Longrightarrow> policy_ready st"
  by (auto simp: policy_at_def policy_ready_def)

lemma policy_exhausted:
  assumes "policy_at r st" and "\<not> r < max_retries"
  shows "policy_ready st"
proof -
  obtain d where d:
    "monitor (timeout_step (\<lambda>d. d)) (0, 1, False) (trace st) = Some (r, d, False)"
    "mytimer st = (if r < 2 then d else min (d * (3 / 2)) 5)"
    "d \<in> timeout_values" "attempt_floor r \<le> d"
    using assms(1) unfolding policy_at_def by blast
  have "6 \<le> r"
    using assms(2) by (simp add: max_retries_def)
  then have "d = 5"
    using d(3,4) by (auto simp: attempt_floor_def timeout_values_def)
  then have "mytimer st = d"
    using d(2) \<open>6 \<le> r\<close> by simp
  then show ?thesis
    using d(1) unfolding policy_ready_def by blast
qed

lemma main_while_policy:
  assumes "main_while ex t p r st = (ack, st')" and "policy_at r st" and "t \<noteq> ''DONE''"
  shows "if ack then policy_at 0 st' else policy_ready st'"
proof -
  obtain r0 st0 where exit: "policy_at r0 st0"
    "if ack
     then r0 < max_retries \<and>
          (\<exists>rcvpkt. main_wait ex (cur_seq st0) (next_polls (polls st0)) = Some rcvpkt
             \<and> st' = accepted rcvpkt (attempted t p st0))
     else \<not> r0 < max_retries \<and> st' = st0"
    using main_while_rule [OF assms(1), of policy_at, OF assms(2)] policy_retry [OF _ assms(3)]
    by blast
  show ?thesis
  proof (cases ack)
    case False
    then show ?thesis
      using exit policy_exhausted by auto
  next
    case True
    then obtain rcvpkt where rcv: "st' = accepted rcvpkt (attempted t p st0)"
      using exit(2) by auto
    obtain d where d: "timeout_value st0 = mytimer st0"
      "mytimer st0 = (if r0 < 2 then d else min (d * (3 / 2)) 5)"
      "d \<in> timeout_values" "attempt_floor r0 \<le> d"
      using exit(1) unfolding policy_at_def by blast
    have "mytimer st0 \<in> timeout_values"
      using attempt_floor_next [OF d(3,4)] d(2) by simp
    then have "mytimer st0 \<in> timeout_values \<and> attempt_floor 0 \<le> mytimer st0"
      by (auto simp: attempt_floor_def timeout_values_def)
    moreover have "monitor (timeout_step (\<lambda>d. d)) (0, 1, False) (trace st') =
                     Some (0, mytimer st0, False)"
      unfolding rcv trace_accepted using policy_attempted [OF exit(1) assms(3), of p]
      by (simp add: monitor_append del: trace_attempted)
    ultimately show ?thesis
      using True rcv d(1) by (simp add: policy_at_def del: trace_attempted trace_accepted)
  qed
qed

lemma main_for_policy:
  assumes "policy_at 0 st"
  shows "policy_ready (main_for mk ex ms st)"
proof (rule main_for_rule [where J = "policy_at 0" and K = policy_ready])
  show "policy_at 0 st" by (rule assms)
next
  fix m st0 ack st1
  assume "policy_at 0 st0" and "main_while ex (message m (cur_seq st0))
      (packet_of mk (cur_seq st0) (message m (cur_seq st0))) 0 st0 = (ack, st1)"
  from main_while_policy [OF this(2,1) message_not_DONE]
  show "if ack then policy_at 0 (st1\<lparr>cur_seq := (cur_seq st1 + 1) mod 256\<rparr>)
        else policy_ready st1"
    by (auto simp: policy_at_def)
next
  fix st0 :: client
  assume "policy_at 0 st0"
  then show "policy_ready st0"
    by (rule policy_at_ready)
qed

lemma policy_ready_attempted:
  "policy_ready st \<Longrightarrow> policy_ready (attempted ''DONE'' p st)"
  by (auto simp: policy_ready_def monitor_append)

lemma done_while_policy:
  assumes "done_while ex ''DONE'' p r st = (ack, st')" and "policy_ready st"
  shows "policy_ready st'"
proof -
  have "\<exists>r0 st0. policy_ready st0 \<and>
           (if ack
            then r0 < max_retries \<and>
                 (\<exists>rcvpkt. done_wait ex (cur_seq st0) (next_polls (polls st0)) = Some rcvpkt
                    \<and> st' = accepted rcvpkt (attempted ''DONE'' p st0))
            else \<not> r0 < max_retries \<and> st' = st0)"
    using assms(2) policy_ready_attempted
    by (intro done_while_rule [OF assms(1), of "\<lambda>r. policy_ready"]) auto
  then obtain r0 st0 where exit: "policy_ready st0"
    "if ack
     then r0 < max_retries \<and>
          (\<exists>rcvpkt. done_wait ex (cur_seq st0) (next_polls (polls st0)) = Some rcvpkt
             \<and> st' = accepted rcvpkt (attempted ''DONE'' p st0))
     else \<not> r0 < max_retries \<and> st' = st0"
    by blast
  show ?thesis
  proof (cases ack)
    case False
    then show ?thesis using exit by simp
  next
    case True
    then obtain rcvpkt where rcv: "st' = accepted rcvpkt (attempted ''DONE'' p st0)"
      using exit(2) by auto
    have "policy_ready (attempted ''DONE'' p st0)"
      using exit(1) by (rule policy_ready_attempted)
    then show ?thesis
      unfolding rcv policy_ready_def trace_accepted
      by (auto simp: monitor_append simp del: trace_attempted)
  qed
qed

text \<open>
  C3, amended. The timeout starts at the base duration 1; the first retry of a
  message uses the same duration again, and on the second and every later retry of
  the same message the duration becomes \<open>min (T * 3/2) 5\<close>. It is not reset when a
  new message begins: a message starts with the duration of the timer run before it
  (\<open>fresh\<close> is the identity). The termination message is sent with the duration of
  the last timer run of the message loop, and its retries keep that duration. Over
  the whole run the durations never decrease, and they are among 1, 3/2, 9/4, 27/8
  and 5.
\<close>

theorem timeout_carried_over:
  "timeout_policy (\<lambda>d. d) (trace (client_main mk ex input))
   \<and> sorted (durations (trace (client_main mk ex input)))
   \<and> set (durations (trace (client_main mk ex input))) \<subseteq> {1, 3 / 2, 9 / 4, 27 / 8, 5}"
proof -
  have "policy_at 0 (client_init input)"
    by (simp add: policy_at_def client_init_def timeout_values_def attempt_floor_def)
  then have ready: "policy_ready (main_try mk ex input)"
    unfolding main_try_def by (rule main_for_policy)
  obtain ack st' where run:
    "done_while ex ''DONE'' (packet_of mk (cur_seq (main_try mk ex input)) ''DONE'') 0
       (main_try mk ex input) = (ack, st')"
    by (cases "done_while ex ''DONE'' (packet_of mk (cur_seq (main_try mk ex input)) ''DONE'') 0
       (main_try mk ex input)") blast
  have "policy_ready st'"
    using done_while_policy [OF run ready] .
  then have "timeout_policy (\<lambda>d. d) (trace (client_main mk ex input))"
    by (auto simp: timeout_policy_def policy_ready_def client_main_def main_finally_unfold run)
  then show ?thesis
    using client_main_timer_ok [of mk ex input]
    by (simp add: timer_ok_def timeout_values_def)
qed

text \<open>
  C3 as stated fails: nothing in \<^verbatim>\<open>main\<close> assigns \<open>timeout_value\<close> or
  \<open>mytimer\<close> at the start of a message. In the run below the first two attempts of
  message 0 time out and the third is acknowledged, with the timer at 3/2 by then;
  message 1 starts with 3/2, so the policy with a reset to 1 is violated, in the
  message loop and hence in the whole run.
\<close>

theorem timeout_not_reset:
  "take 9 (trace (main_try packet_make packet_extract
        [[], [], [Datagram (packet_make 0 ''00000015'' ''ACK-0'')]])) =
     [Send 0 ''Message-0-Seq-0'' (packet_make 0 ''00000058'' ''Message-0-Seq-0''), Start 1,
      Send 0 ''Message-0-Seq-0'' (packet_make 0 ''00000058'' ''Message-0-Seq-0''), Start 1,
      Send 0 ''Message-0-Seq-0'' (packet_make 0 ''00000058'' ''Message-0-Seq-0''), Start (3 / 2),
      Accept (packet_make 0 ''00000015'' ''ACK-0''),
      Send 1 ''Message-1-Seq-1'' (packet_make 1 ''00000060'' ''Message-1-Seq-1''), Start (3 / 2)]
   \<and> \<not> timeout_policy (\<lambda>d. 1)
        (trace (main_try packet_make packet_extract
           [[], [], [Datagram (packet_make 0 ''00000015'' ''ACK-0'')]]))
   \<and> \<not> timeout_policy (\<lambda>d. 1)
        (trace (client_main packet_make packet_extract
           [[], [], [Datagram (packet_make 0 ''00000015'' ''ACK-0'')]]))"
  by code_simp

subsection \<open>The termination message\<close>

lemma main_while_done_sends:
  assumes "main_while ex t p r st = (ack, st')" and "t \<noteq> ''DONE''"
  shows "done_sends (trace st') = done_sends (trace st)"
proof -
  define I where "I = (\<lambda>(r :: nat) (st0 :: client). done_sends (trace st0) = done_sends (trace st))"
  have "\<exists>r0 st0. I r0 st0 \<and>
           (if ack
            then r0 < max_retries \<and>
                 (\<exists>rcvpkt. main_wait ex (cur_seq st0) (next_polls (polls st0)) = Some rcvpkt
                    \<and> st' = accepted rcvpkt (attempted t p st0))
            else \<not> r0 < max_retries \<and> st' = st0)"
    using assms(2)
    by (intro main_while_rule [OF assms(1), of I]) (auto simp: I_def done_sends_append)
  then show ?thesis
    using assms(2) by (auto simp: I_def done_sends_append split: if_splits)
qed

lemma main_for_done_sends:
  "done_sends (trace st) = [] \<Longrightarrow> done_sends (trace (main_for mk ex ms st)) = []"
proof (rule main_for_rule [where J = "\<lambda>st. done_sends (trace st) = []"
      and K = "\<lambda>st. done_sends (trace st) = []"])
  fix m st0 ack st1
  assume "done_sends (trace st0) = []" and "main_while ex (message m (cur_seq st0))
      (packet_of mk (cur_seq st0) (message m (cur_seq st0))) 0 st0 = (ack, st1)"
  then have "done_sends (trace st1) = []"
    using main_while_done_sends message_not_DONE by metis
  then show "if ack then done_sends (trace (st1\<lparr>cur_seq := (cur_seq st1 + 1) mod 256\<rparr>)) = []
             else done_sends (trace st1) = []"
    by simp
qed auto

lemma concat_replicate_Suc: "concat (replicate (Suc n) xs) = concat (replicate n xs) @ xs"
  by (induction n) auto

lemma done_sends_attempts:
  "done_sends (concat (replicate n [Send s ''DONE'' p, Start d])) = replicate n (Send s ''DONE'' p)"
  by (induction n) auto

lemma done_wait_first_ack: "done_wait ex s ps = first_ack ex s ps"
proof (induction ps)
  case Nil
  then show ?case by (simp add: first_ack_def)
next
  case (Cons q ps)
  then show ?case
    by (cases q)
       (auto simp: done_wait_Datagram first_ack_def answers_def simp del: done_wait.simps(4))
qed

lemma polls_attempted [simp]: "polls (attempted t p st) = later_polls (polls st)"
  by (simp add: attempted_def)

lemma polls_accepted [simp]: "polls (accepted rcvpkt st) = polls st"
  by (simp add: accepted_def)

lemma polls_backed_off [simp]: "polls (backed_off r st) = polls st"
  by (simp add: backed_off_def)

lemma later_polls_drop: "later_polls (drop r pss) = drop (Suc r) pss"
  by (cases "drop r pss") (auto simp: later_polls_def drop_Suc tl_drop [symmetric])

lemma durations_attempts:
  "durations (concat (replicate n [Send s t p, Start d])) = replicate n d"
  by (induction n) auto

lemma replicate_snoc: "0 < n \<Longrightarrow> replicate n x = replicate (n - 1) x @ [x]"
  by (cases n) (simp_all add: replicate_append_same)

lemma done_while_shape:
  assumes "done_while ex t p 0 st = (ack, st')"
  shows "\<exists>n a. 1 \<le> n \<and> n \<le> max_retries
           \<and> trace st' = trace st @ concat (replicate n [Send (cur_seq st) t p, Start (mytimer st)])
                          @ (case a of None \<Rightarrow> [] | Some r \<Rightarrow> [Accept r])
           \<and> map (\<lambda>j. first_ack ex (cur_seq st) (next_polls (drop j (polls st)))) [0..<n] =
               replicate (n - 1) None @ [a]
           \<and> (case a of None \<Rightarrow> n = max_retries | Some r \<Rightarrow> acks ex (cur_seq st) r)"
proof -
  define waits where
    "waits = (\<lambda>j. first_ack ex (cur_seq st) (next_polls (drop j (polls st))))"
  define I where "I = (\<lambda>(r :: nat) (st0 :: client). r \<le> max_retries
      \<and> cur_seq st0 = cur_seq st \<and> mytimer st0 = mytimer st \<and> polls st0 = drop r (polls st)
      \<and> trace st0 = trace st @ concat (replicate r [Send (cur_seq st) t p, Start (mytimer st)])
      \<and> map waits [0..<r] = replicate r None)"
  have "I 0 st"
    by (simp add: I_def)
  moreover have "I (Suc r0) (attempted t p st0)"
    if "r0 < max_retries" "I r0 st0"
      "done_wait ex (cur_seq st0) (next_polls (polls st0)) = None" for r0 st0
  proof -
    have "waits r0 = None"
      using that(2,3) by (simp add: I_def waits_def done_wait_first_ack)
    then have "map waits [0..<Suc r0] = replicate (Suc r0) None"
      using that(2) by (simp add: I_def replicate_append_same)
    then show ?thesis
      using that(1,2) unfolding I_def trace_attempted concat_replicate_Suc
      by (simp add: later_polls_drop)
  qed
  ultimately obtain r0 st0 where exit: "I r0 st0"
    "if ack
     then r0 < max_retries \<and>
          (\<exists>rcvpkt. done_wait ex (cur_seq st0) (next_polls (polls st0)) = Some rcvpkt
             \<and> st' = accepted rcvpkt (attempted t p st0))
     else \<not> r0 < max_retries \<and> st' = st0"
    using done_while_rule [OF assms, of I] by blast
  show ?thesis
  proof (cases ack)
    case False
    then have r0: "r0 = max_retries" "st' = st0"
      using exit by (auto simp: I_def)
    have "replicate max_retries (None :: bytes option) = replicate (max_retries - 1) None @ [None]"
      by (rule replicate_snoc) (simp add: max_retries_def)
    then have "map waits [0..<max_retries] = replicate (max_retries - 1) None @ [None]"
      using exit(1) r0(1) by (simp add: I_def)
    then show ?thesis
      using exit(1) r0 unfolding waits_def
      by (intro exI [of _ max_retries] exI [of _ None]) (simp add: I_def max_retries_def)
  next
    case True
    then obtain rcvpkt where rcv: "r0 < max_retries"
      "done_wait ex (cur_seq st0) (next_polls (polls st0)) = Some rcvpkt"
      "st' = accepted rcvpkt (attempted t p st0)"
      using exit(2) by auto
    have "acks ex (cur_seq st) rcvpkt"
      using done_wait_acks [OF rcv(2)] exit(1) by (simp add: I_def)
    moreover have "trace st' = trace st
        @ concat (replicate (Suc r0) [Send (cur_seq st) t p, Start (mytimer st)]) @ [Accept rcvpkt]"
      using exit(1) unfolding rcv(3) trace_accepted trace_attempted concat_replicate_Suc I_def
      by simp
    moreover have "waits r0 = Some rcvpkt"
      using rcv(2) exit(1) by (simp add: I_def waits_def done_wait_first_ack)
    then have "map waits [0..<Suc r0] = replicate (Suc r0 - 1) None @ [Some rcvpkt]"
      using exit(1) by (simp add: I_def)
    ultimately show ?thesis
      using rcv(1) unfolding waits_def
      by (intro exI [of _ "Suc r0"] exI [of _ "Some rcvpkt"]) simp
  qed
qed

text \<open>
  C7, amended. After the message loop has ended, by exhausting the messages or by
  aborting, the sender sends the termination payload \<^verbatim>\<open>DONE\<close> with the current
  sequence number through a send, wait and retry loop of its own, and it does so
  exactly once per run. In every run the trace of \<^verbatim>\<open>main\<close> is the trace of the
  message loop followed by \<open>n\<close> transmissions of \<^verbatim>\<open>DONE\<close>, each followed by a
  timer run, where \<open>1 \<le> n \<le> max_retries\<close> whatever the message loop used of its
  budget. The wait of each of the first \<open>n - 1\<close> attempts met no acknowledgement of
  the current sequence number, and the last attempt ended with the first such reply
  of its timer run, or else \<open>n = max_retries\<close>. Every one of the timer runs has the
  duration the message loop left: these retries do not back off. The message loop
  itself never sends \<^verbatim>\<open>DONE\<close>, so these are all the transmissions of it.
\<close>

theorem done_sent_once_after_main_loop:
  "\<exists>n a. 1 \<le> n \<and> n \<le> max_retries
     \<and> trace (client_main mk ex input) =
         trace (main_try mk ex input)
         @ concat (replicate n
             [Send (cur_seq (main_try mk ex input)) ''DONE''
                (mk (cur_seq (main_try mk ex input))
                   (create_checksum (cur_seq (main_try mk ex input)) ''DONE'') ''DONE''),
              Start (mytimer (main_try mk ex input))])
         @ (case a of None \<Rightarrow> [] | Some r \<Rightarrow> [Accept r])
     \<and> map (\<lambda>j. first_ack ex (cur_seq (main_try mk ex input))
                  (next_polls (drop j (polls (main_try mk ex input))))) [0..<n] =
         replicate (n - 1) None @ [a]
     \<and> (case a of None \<Rightarrow> n = max_retries
         | Some r \<Rightarrow> acks ex (cur_seq (main_try mk ex input)) r)
     \<and> done_sends (trace (main_try mk ex input)) = []
     \<and> length (done_sends (trace (client_main mk ex input))) = n"
proof -
  let ?st = "main_try mk ex input"
  let ?p = "packet_of mk (cur_seq ?st) ''DONE''"
  obtain ack st' where run: "done_while ex ''DONE'' ?p 0 ?st = (ack, st')"
    by (cases "done_while ex ''DONE'' ?p 0 ?st") blast
  have final: "client_main mk ex input = st'"
    by (simp add: client_main_def main_finally_unfold run)
  have none: "done_sends (trace ?st) = []"
    unfolding main_try_def by (rule main_for_done_sends) (simp add: client_init_def)
  obtain n a where shape: "1 \<le> n" "n \<le> max_retries"
    "trace st' = trace ?st @ concat (replicate n [Send (cur_seq ?st) ''DONE'' ?p, Start (mytimer ?st)])
                 @ (case a of None \<Rightarrow> [] | Some r \<Rightarrow> [Accept r])"
    "map (\<lambda>j. first_ack ex (cur_seq ?st) (next_polls (drop j (polls ?st)))) [0..<n] =
       replicate (n - 1) None @ [a]"
    "case a of None \<Rightarrow> n = max_retries | Some r \<Rightarrow> acks ex (cur_seq ?st) r"
    using done_while_shape [OF run] by blast
  have "done_sends (trace st') = replicate n (Send (cur_seq ?st) ''DONE'' ?p)"
    unfolding shape(3) by (cases a) (simp_all add: done_sends_append none done_sends_attempts)
  then have "length (done_sends (trace st')) = n"
    by simp
  then show ?thesis
    using shape none unfolding final packet_of_def by blast
qed

lemma main_for_acked:
  assumes "length pss = length ms" and "acked_in_turn ex (cur_seq st) pss"
    and "polls st = pss @ rest" and "timeout_value st = mytimer st"
  shows "polls (main_for mk ex ms st) = rest
       \<and> mytimer (main_for mk ex ms st) = mytimer st
       \<and> timeout_value (main_for mk ex ms st) = mytimer st
       \<and> durations (trace (main_for mk ex ms st)) =
           durations (trace st) @ replicate (length ms) (mytimer st)"
  using assms
proof (induction ms arbitrary: st pss)
  case Nil
  then show ?case by simp
next
  case (Cons m ms)
  then obtain ps pss' where pss: "pss = ps # pss'"
    by (cases pss) auto
  obtain r where r: "main_wait ex (cur_seq st) ps = Some r"
    using Cons.prems(2) pss by auto
  let ?t = "message m (cur_seq st)"
  let ?st1 = "accepted r (attempted ?t (packet_of mk (cur_seq st) ?t) st)"
  let ?st2 = "?st1\<lparr>cur_seq := (cur_seq ?st1 + 1) mod 256\<rparr>"
  have "next_polls (polls st) = ps"
    using Cons.prems(3) pss by (simp add: next_polls_def)
  then have run: "main_while ex ?t (packet_of mk (cur_seq st) ?t) 0 st = (True, ?st1)"
    using r by (subst main_while_unfold) (simp add: max_retries_def)
  have step: "main_for mk ex (m # ms) st = main_for mk ex ms ?st2"
    using main_for_Cons [OF run] by simp
  have "polls ?st2 = pss' @ rest"
    using Cons.prems(3) pss by (simp add: later_polls_def)
  moreover have "acked_in_turn ex (cur_seq ?st2) pss'"
    using Cons.prems(2) pss by simp
  moreover have "length pss' = length ms"
    using Cons.prems(1) pss by simp
  moreover have "timeout_value ?st2 = mytimer ?st2"
    using Cons.prems(4) by simp
  ultimately have IH: "polls (main_for mk ex ms ?st2) = rest
       \<and> mytimer (main_for mk ex ms ?st2) = mytimer ?st2
       \<and> timeout_value (main_for mk ex ms ?st2) = mytimer ?st2
       \<and> durations (trace (main_for mk ex ms ?st2)) =
           durations (trace ?st2) @ replicate (length ms) (mytimer ?st2)"
    using Cons.IH [of pss' ?st2] by blast
  show ?case
    unfolding step using IH by (simp add: durations_append replicate_append_same)
qed

lemma done_while_no_reply:
  assumes "polls st = []"
  shows "durations (trace (snd (done_while ex t p 0 st))) =
           durations (trace st) @ replicate max_retries (mytimer st)"
proof -
  obtain ack st' where run: "done_while ex t p 0 st = (ack, st')"
    by (cases "done_while ex t p 0 st") blast
  obtain n a where shape: "1 \<le> n"
    "trace st' = trace st @ concat (replicate n [Send (cur_seq st) t p, Start (mytimer st)])
                 @ (case a of None \<Rightarrow> [] | Some r \<Rightarrow> [Accept r])"
    "map (\<lambda>j. first_ack ex (cur_seq st) (next_polls (drop j (polls st)))) [0..<n] =
       replicate (n - 1) None @ [a]"
    "case a of None \<Rightarrow> n = max_retries | Some r \<Rightarrow> acks ex (cur_seq st) r"
    using done_while_shape [OF run] by blast
  have "map (\<lambda>j. first_ack ex (cur_seq st) (next_polls (drop j (polls st)))) [0..<n] =
          replicate n None"
    using assms by (simp add: next_polls_def first_ack_def map_replicate_const)
  then have "replicate n (None :: bytes option) = replicate (n - 1) None @ [a]"
    using shape(3) by simp
  then have "last (replicate n (None :: bytes option)) = a"
    by simp
  then have "a = None"
    using shape(1) by simp
  then show ?thesis
    using shape(2,4) run by (simp add: durations_append durations_attempts)
qed

lemma main_while_no_reply:
  assumes "polls st = []" and "timeout_value st = 1" and "mytimer st = 1"
  shows "durations (trace (snd (main_while ex t p 0 st))) =
           durations (trace st) @ [1, 1, 3 / 2, 9 / 4, 27 / 8, 5, 5, 5, 5, 5]"
  using assms
  by (simp add: main_while_unfold max_retries_def next_polls_def later_polls_def
      backed_off_def attempted_def durations_append)

text \<open>
  C7 as stated fails in one respect: the termination message does not go through the
  same protocol as a message. The retry loop of a message raises the timeout from
  its second retry on; the loop of the \<^verbatim>\<open>finally\<close> block never does. On the input
  below all 20 messages are acknowledged at once and nothing arrives afterwards: the
  ten timer runs of \<^verbatim>\<open>DONE\<close> all last 1, whereas the retry loop of the message
  loop, run on the same packet from the same state, would use 1, 1, 3/2, 9/4, 27/8,
  5, 5, 5, 5, 5.
\<close>

theorem done_loop_does_not_back_off:
  "durations (trace (client_main packet_make packet_extract all_acknowledged)) =
     replicate 20 1 @ [1, 1, 1, 1, 1, 1, 1, 1, 1, 1]
   \<and> durations (trace (snd (main_while packet_extract ''DONE''
          (packet_make 20 ''00000014'' ''DONE'') 0
          (main_try packet_make packet_extract all_acknowledged)))) =
       replicate 20 1 @ [1, 1, 3 / 2, 9 / 4, 27 / 8, 5, 5, 5, 5, 5]"
proof -
  let ?st = "main_try packet_make packet_extract all_acknowledged"
  have "acked_in_turn packet_extract 0 all_acknowledged"
    by code_simp
  moreover have "length all_acknowledged = length [0..<20]"
    by (simp add: all_acknowledged_def)
  ultimately have st: "polls ?st = []" "mytimer ?st = 1" "timeout_value ?st = 1"
    "durations (trace ?st) = replicate 20 1"
    unfolding main_try_def
    using main_for_acked [of all_acknowledged "[0..<20]" packet_extract
        "client_init all_acknowledged" "[]" packet_make]
    by (simp_all add: client_init_def)
  have "durations (trace (client_main packet_make packet_extract all_acknowledged)) =
          replicate 20 1 @ replicate max_retries 1"
    unfolding client_main_def main_finally_unfold
    using done_while_no_reply [OF st(1)] st(2,4) by simp
  moreover have "replicate max_retries (1 :: rat) = [1, 1, 1, 1, 1, 1, 1, 1, 1, 1]"
    by (simp add: max_retries_def numeral_eq_Suc)
  ultimately show ?thesis
    using main_while_no_reply [OF st(1,3,2)] st(4) by simp
qed

end
